theory Spec2Isabelle
  imports
    Complex_Main
    "HOL-Library.Sublist"
    "HOL-Library.Multiset"
    "HOL-Library.AList"
    "HOL-Library.Char_ord"
    "HOL-Library.List_Lexorder"
begin

section \<open>Paths\<close>

text \<open>
  A \<^verbatim>\<open>pathlib.Path\<close> (POSIX flavour) is modelled by its \<^verbatim>\<open>parts\<close>: the list of its
  components, with a leading component \<^verbatim>\<open>/\<close> for an absolute path. Python compares two
  paths by comparing these lists, and strings by code point, which is the lexicographic
  order that \<open>List_Lexorder\<close> and \<open>Char_ord\<close> give to \<open>string list\<close>.
\<close>

type_synonym path = "string list"

fun split_sep :: "string \<Rightarrow> string list" where
  "split_sep [] = [[]]"
| "split_sep (c # cs) =
     (if c = CHR ''/'' then [] # split_sep cs
      else (case split_sep cs of [] \<Rightarrow> [[c]] | w # ws \<Rightarrow> (c # w) # ws))"

text \<open>\<^verbatim>\<open>Path(s)\<close>: empty components and \<^verbatim>\<open>.\<close> components are dropped.\<close>

definition Path :: "string \<Rightarrow> path" where
  "Path s =
     (if s \<noteq> [] \<and> hd s = CHR ''/'' then [''/''] else []) @
     filter (\<lambda>c. c \<noteq> [] \<and> c \<noteq> ''.'') (split_sep s)"

definition name :: "path \<Rightarrow> string" where
  "name p = (if p = [] \<or> p = [''/''] then [] else last p)"

definition parent :: "path \<Rightarrow> path" where
  "parent p = (if p = [] \<or> p = [''/''] then p else butlast p)"

text \<open>\<^verbatim>\<open>Path(d) / n\<close> for a single component \<^verbatim>\<open>n\<close>.\<close>

definition joinpath :: "path \<Rightarrow> string \<Rightarrow> path" where
  "joinpath d n = d @ [n]"

text \<open>\<^verbatim>\<open>str.rfind(c)\<close>: the index of the last occurrence, \<open>None\<close> for Python's -1.\<close>

fun rfind :: "char \<Rightarrow> string \<Rightarrow> nat option" where
  "rfind c [] = None"
| "rfind c (x # xs) =
     (case rfind c xs of
        Some i \<Rightarrow> Some (Suc i)
      | None \<Rightarrow> if x = c then Some 0 else None)"

text \<open>
  \<^verbatim>\<open>PurePath.suffix\<close> and \<^verbatim>\<open>PurePath.stem\<close>: with \<^verbatim>\<open>i = name.rfind('.')\<close>, the name is cut
  at \<^verbatim>\<open>i\<close> when \<^verbatim>\<open>0 < i < len(name) - 1\<close>, and has no suffix otherwise.
\<close>

definition suffix_of :: "string \<Rightarrow> string" where
  "suffix_of n =
     (case rfind (CHR ''.'') n of
        Some i \<Rightarrow> if 0 < i \<and> i + 1 < length n then drop i n else []
      | None \<Rightarrow> [])"

definition stem_of :: "string \<Rightarrow> string" where
  "stem_of n =
     (case rfind (CHR ''.'') n of
        Some i \<Rightarrow> if 0 < i \<and> i + 1 < length n then take i n else n
      | None \<Rightarrow> n)"

definition stem :: "path \<Rightarrow> string" where
  "stem p = stem_of (name p)"

section \<open>Exceptions\<close>

datatype exn =
    ValueError string
  | FileExistsError string
  | FileNotFoundError string
  | IsADirectoryError string
  | RuntimeError string

fun str_exn :: "exn \<Rightarrow> string" where
  "str_exn (ValueError m) = m"
| "str_exn (FileExistsError m) = m"
| "str_exn (FileNotFoundError m) = m"
| "str_exn (IsADirectoryError m) = m"
| "str_exn (RuntimeError m) = m"

text \<open>
  \<^verbatim>\<open>PurePath.with_suffix(suffix)\<close> for a suffix that starts with a dot: a path with an
  empty name raises \<^verbatim>\<open>ValueError\<close>; otherwise the old suffix is cut off the name and the
  new one appended.
\<close>

definition with_suffix :: "path \<Rightarrow> string \<Rightarrow> exn + path" where
  "with_suffix p suf =
     (if name p = [] then Inl (ValueError ''has an empty name'')
      else let old = suffix_of (name p);
               n = (if old = [] then name p @ suf
                    else take (length (name p) - length old) (name p) @ suf)
           in Inr (butlast p @ [n]))"

section \<open>The file system\<close>

text \<open>
  A file system is a list of nodes, in the order in which a directory scan returns them,
  and the case rule of its path flavour (\<^verbatim>\<open>Path.glob\<close> matches names case-sensitively on
  POSIX and case-insensitively on Windows). The current directory \<open>[]\<close> and the root
  always exist.
\<close>

datatype node = File string | Dir

record filesystem =
  nodes :: "(path \<times> node) list"
  case_sensitive :: bool

definition node_at :: "filesystem \<Rightarrow> path \<Rightarrow> node option" where
  "node_at fs p = (if p = [] \<or> p = [''/''] then Some Dir else map_of (nodes fs) p)"

definition is_file :: "filesystem \<Rightarrow> path \<Rightarrow> bool" where
  "is_file fs p = (case node_at fs p of Some (File _) \<Rightarrow> True | _ \<Rightarrow> False)"

definition is_dir :: "filesystem \<Rightarrow> path \<Rightarrow> bool" where
  "is_dir fs p = (case node_at fs p of Some Dir \<Rightarrow> True | _ \<Rightarrow> False)"

text \<open>The names of the direct children of a directory, in scan order.\<close>

definition iterdir :: "filesystem \<Rightarrow> path \<Rightarrow> string list" where
  "iterdir fs d =
     remdups (map last (filter (\<lambda>q. q \<noteq> [] \<and> q \<noteq> [''/''] \<and> butlast q = d)
                               (map fst (nodes fs))))"

definition lower_char :: "char \<Rightarrow> char" where
  "lower_char c =
     (if CHR ''A'' \<le> c \<and> c \<le> CHR ''Z'' then char_of (of_char c + (32::nat)) else c)"

definition upper_char :: "char \<Rightarrow> char" where
  "upper_char c =
     (if CHR ''a'' \<le> c \<and> c \<le> CHR ''z'' then char_of (of_char c - (32::nat)) else c)"

definition lower :: "string \<Rightarrow> string" where
  "lower s = map lower_char s"

definition upper :: "string \<Rightarrow> string" where
  "upper s = map upper_char s"

text \<open>
  \<^verbatim>\<open>fnmatch\<close> of a name against the pattern \<^verbatim>\<open>*lit\<close>, where \<^verbatim>\<open>lit\<close> has no wildcard: the
  name ends with \<^verbatim>\<open>lit\<close>, compared as the flavour says.
\<close>

definition match_star :: "bool \<Rightarrow> string \<Rightarrow> string \<Rightarrow> bool" where
  "match_star cs lit n =
     (if cs then suffix lit n else suffix (lower lit) (lower n))"

text \<open>\<^verbatim>\<open>d.glob("*" + lit)\<close>: one level, hidden names included.\<close>

definition glob :: "filesystem \<Rightarrow> path \<Rightarrow> string \<Rightarrow> path list" where
  "glob fs d lit =
     map (joinpath d) (filter (match_star (case_sensitive fs) lit) (iterdir fs d))"

section \<open>Argument parsing\<close>

text \<open>The \<^verbatim>\<open>while i < len(args)\<close> loop of \<^verbatim>\<open>main\<close>, with its four variables.\<close>

function parse_loop ::
  "string list \<Rightarrow> nat \<Rightarrow> string option \<Rightarrow> path list \<Rightarrow> string option \<times> path list" where
  "parse_loop args i output_dir input_paths =
     (if i < length args then
        (if args ! i = ''-o'' \<and> i + 1 < length args
         then parse_loop args (i + 2) (Some (args ! (i + 1))) input_paths
         else parse_loop args (i + 1) output_dir (input_paths @ [Path (args ! i)]))
      else (output_dir, input_paths))"
  by pat_completeness auto
termination
  by (relation "measure (\<lambda>(args, i, od, ips). length args - i)") auto

declare parse_loop.simps [simp del]

definition parse_args :: "string list \<Rightarrow> string option \<times> path list" where
  "parse_args args = parse_loop args 0 None []"

text \<open>Python truthiness of \<^verbatim>\<open>output_dir\<close>: \<^verbatim>\<open>None\<close> and the empty string are false.\<close>

definition truthy :: "string option \<Rightarrow> bool" where
  "truthy od = (case od of None \<Rightarrow> False | Some d \<Rightarrow> d \<noteq> [])"

section \<open>Collecting the audio files\<close>

definition AUDIO_EXTENSIONS :: "string list" where
  "AUDIO_EXTENSIONS = [''.mp3'', ''.wav'', ''.flac'', ''.m4a'', ''.ogg'', ''.wma'', ''.aac'']"

text \<open>What the program prints, one constructor for each \<^verbatim>\<open>print\<close> of the source.\<close>

datatype event =
    Usage
  | WarnMissing path
  | NoAudioFound
  | Found nat
  | Loading
  | LoadFailed string
  | LoadDone
  | Transcribing string
  | Saved path
  | TranscribeFailed string string
  | AllDone
  | Traceback exn

text \<open>
  The inner loop \<^verbatim>\<open>for ext in AUDIO_EXTENSIONS\<close>. The source iterates over a set, whose
  order is not fixed, so the order is a parameter.
\<close>

fun glob_exts :: "filesystem \<Rightarrow> string list \<Rightarrow> path \<Rightarrow> path list \<Rightarrow> path list" where
  "glob_exts fs [] d audio_files = audio_files"
| "glob_exts fs (ext # exts) d audio_files =
     glob_exts fs exts d (audio_files @ glob fs d ext @ glob fs d (upper ext))"

text \<open>The loop \<^verbatim>\<open>for input_path in input_paths\<close>.\<close>

fun collect ::
  "filesystem \<Rightarrow> string list \<Rightarrow> path list \<Rightarrow> path list \<Rightarrow> event list \<Rightarrow> path list \<times> event list"
  where
  "collect fs exts [] audio_files out = (audio_files, out)"
| "collect fs exts (p # ps) audio_files out =
     (if is_file fs p then collect fs exts ps (audio_files @ [p]) out
      else if is_dir fs p then collect fs exts ps (glob_exts fs exts p audio_files) out
      else collect fs exts ps audio_files (out @ [WarnMissing p]))"

section \<open>Timestamps\<close>

text \<open>
  A finite Python float is a rational number, and on non-negative finite floats
  \<^verbatim>\<open>x // y\<close> and \<^verbatim>\<open>x % y\<close> with a positive \<^verbatim>\<open>y\<close> are the floor of the quotient and the
  remainder. Seconds are modelled as reals with these two operations; infinities and NaN
  are not values of the model.
\<close>

definition py_floordiv :: "real \<Rightarrow> real \<Rightarrow> real" where
  "py_floordiv x y = of_int \<lfloor>x / y\<rfloor>"

definition py_mod :: "real \<Rightarrow> real \<Rightarrow> real" where
  "py_mod x y = x - y * of_int \<lfloor>x / y\<rfloor>"

text \<open>\<^verbatim>\<open>int(x)\<close> truncates towards zero.\<close>

definition py_int :: "real \<Rightarrow> int" where
  "py_int x = (if 0 \<le> x then \<lfloor>x\<rfloor> else \<lceil>x\<rceil>)"

definition digit_char :: "nat \<Rightarrow> char" where
  "digit_char d = ''0123456789'' ! d"

fun digits :: "nat \<Rightarrow> string" where
  "digits n = (if n < 10 then [digit_char n] else digits (n div 10) @ [digit_char (n mod 10)])"

declare digits.simps [simp del]

text \<open>
  The format specification \<^verbatim>\<open>0wd\<close>: decimal digits, padded with zeros after the sign up
  to a total width of \<^verbatim>\<open>w\<close>.
\<close>

definition zfill :: "nat \<Rightarrow> string \<Rightarrow> string" where
  "zfill w s = replicate (w - length s) (CHR ''0'') @ s"

definition fmt0d :: "nat \<Rightarrow> int \<Rightarrow> string" where
  "fmt0d w n =
     (if n < 0 then CHR ''-'' # zfill (w - 1) (digits (nat (- n)))
      else zfill w (digits (nat n)))"

definition format_timestamp :: "real \<Rightarrow> string" where
  "format_timestamp seconds =
     (let hours = py_int (py_floordiv seconds 3600);
          minutes = py_int (py_floordiv (py_mod seconds 3600) 60);
          secs = py_int (py_mod seconds 60)
      in if hours > 0
         then fmt0d 2 hours @ '':'' @ fmt0d 2 minutes @ '':'' @ fmt0d 2 secs
         else fmt0d 2 minutes @ '':'' @ fmt0d 2 secs)"

text \<open>The reading of the clock, and \<^verbatim>\<open>strftime('%Y-%m-%d %H:%M:%S')\<close>.\<close>

record datetime =
  year :: nat
  month :: nat
  day :: nat
  hour :: nat
  minute :: nat
  second :: nat

definition strftime :: "datetime \<Rightarrow> string" where
  "strftime t =
     fmt0d 4 (int (year t)) @ ''-'' @ fmt0d 2 (int (month t)) @ ''-'' @ fmt0d 2 (int (day t)) @
     '' '' @ fmt0d 2 (int (hour t)) @ '':'' @ fmt0d 2 (int (minute t)) @ '':'' @
     fmt0d 2 (int (second t))"

section \<open>Rendering\<close>

text \<open>
  Strings are sequences of bytes, the UTF-8 encoding that \<^verbatim>\<open>write_text\<close> produces.
  \<^verbatim>\<open>str.strip()\<close> is modelled on the ASCII white space.
\<close>

definition is_space :: "char \<Rightarrow> bool" where
  "is_space c =
     (c = CHR '' '' \<or> c = CHR 0x09 \<or> c = CHR 0x0A \<or> c = CHR 0x0B \<or> c = CHR 0x0C \<or>
      c = CHR 0x0D \<or> c = CHR 0x1C \<or> c = CHR 0x1D \<or> c = CHR 0x1E \<or> c = CHR 0x1F)"

definition strip :: "string \<Rightarrow> string" where
  "strip s = rev (dropWhile is_space (rev (dropWhile is_space s)))"

text \<open>\<^verbatim>\<open>"\n".join(lines)\<close>\<close>

fun join_lines :: "string list \<Rightarrow> string" where
  "join_lines [] = []"
| "join_lines [l] = l"
| "join_lines (l # m # ls) = l @ [CHR 0x0A] @ join_lines (m # ls)"

record segment =
  seg_start :: real
  seg_end :: real
  seg_text :: string

text \<open>
  The dictionary that \<^verbatim>\<open>model.transcribe\<close> returns: the key \<^verbatim>\<open>language\<close> may be absent,
  the keys \<^verbatim>\<open>segments\<close> and \<^verbatim>\<open>text\<close> are there.
\<close>

record result =
  res_language :: "string option"
  res_segments :: "segment list"
  res_text :: string

text \<open>The fixed labels of the document, as UTF-8.\<close>

definition lbl_time :: string where
  "lbl_time = [CHR ''>'', CHR '' '', CHR 0xE8, CHR 0xBD, CHR 0xAC, CHR 0xE5, CHR 0xBD, CHR 0x95,
     CHR 0xE6, CHR 0x97, CHR 0xB6, CHR 0xE9, CHR 0x97, CHR 0xB4, CHR '':'', CHR '' '']"

definition lbl_source :: string where
  "lbl_source = [CHR ''>'', CHR '' '', CHR 0xE6, CHR 0xBA, CHR 0x90, CHR 0xE6, CHR 0x96, CHR 0x87,
     CHR 0xE4, CHR 0xBB, CHR 0xB6, CHR '':'', CHR '' '', CHR 0x60]"

definition lbl_language :: string where
  "lbl_language = [CHR ''>'', CHR '' '', CHR 0xE6, CHR 0xA3, CHR 0x80, CHR 0xE6, CHR 0xB5, CHR 0x8B,
     CHR 0xE8, CHR 0xAF, CHR 0xAD, CHR 0xE8, CHR 0xA8, CHR 0x80, CHR '':'', CHR '' '']"

definition h2_transcript :: string where
  "h2_transcript = [CHR ''#'', CHR ''#'', CHR '' '', CHR 0xE8, CHR 0xBD, CHR 0xAC, CHR 0xE5, CHR 0xBD,
     CHR 0x95, CHR 0xE5, CHR 0x86, CHR 0x85, CHR 0xE5, CHR 0xAE, CHR 0xB9]"

definition h2_plain :: string where
  "h2_plain = [CHR ''#'', CHR ''#'', CHR '' '', CHR 0xE7, CHR 0xBA, CHR 0xAF, CHR 0xE6, CHR 0x96,
     CHR 0x87, CHR 0xE6, CHR 0x9C, CHR 0xAC]"

text \<open>\<^verbatim>\<open>result.get('language', 'unknown')\<close>\<close>

definition get_language :: "result \<Rightarrow> string" where
  "get_language r = (case res_language r of None \<Rightarrow> ''unknown'' | Some l \<Rightarrow> l)"

text \<open>The initial value of \<^verbatim>\<open>md_lines\<close>.\<close>

definition md_header :: "path \<Rightarrow> datetime \<Rightarrow> result \<Rightarrow> string list" where
  "md_header audio_path t r =
     [''# '' @ stem audio_path,
      [],
      lbl_time @ strftime t @ ''  '',
      lbl_source @ name audio_path @ [CHR 0x60] @ ''  '',
      lbl_language @ get_language r,
      [],
      ''---'',
      [],
      h2_transcript,
      []]"

definition segment_line :: "segment \<Rightarrow> string" where
  "segment_line sg =
     ''**['' @ format_timestamp (seg_start sg) @ '' - '' @ format_timestamp (seg_end sg) @
     '']** '' @ strip (seg_text sg)"

text \<open>The loop \<^verbatim>\<open>for segment in result["segments"]\<close> with its two appends.\<close>

fun segment_loop :: "segment list \<Rightarrow> string list \<Rightarrow> string list" where
  "segment_loop [] md_lines = md_lines"
| "segment_loop (sg # sgs) md_lines = segment_loop sgs ((md_lines @ [segment_line sg]) @ [[]])"

definition md_lines :: "path \<Rightarrow> datetime \<Rightarrow> result \<Rightarrow> string list" where
  "md_lines audio_path t r =
     segment_loop (res_segments r) (md_header audio_path t r) @
     [''---'', [], h2_plain, [], strip (res_text r), []]"

definition md_content :: "path \<Rightarrow> datetime \<Rightarrow> result \<Rightarrow> string" where
  "md_content audio_path t r = join_lines (md_lines audio_path t r)"

section \<open>Writing\<close>

text \<open>\<^verbatim>\<open>Path(d) / s\<close> for a string \<^verbatim>\<open>s\<close>: an absolute \<^verbatim>\<open>s\<close> replaces \<^verbatim>\<open>d\<close>.\<close>

definition truediv :: "path \<Rightarrow> string \<Rightarrow> path" where
  "truediv d s = (if s \<noteq> [] \<and> hd s = CHR ''/'' then Path s else d @ Path s)"

text \<open>
  \<^verbatim>\<open>Path.write_text\<close> opens the file for writing, which truncates it: it fails on a
  directory and where the parent is not a directory, and replaces the content otherwise.
\<close>

definition write_text :: "filesystem \<Rightarrow> path \<Rightarrow> string \<Rightarrow> exn + filesystem" where
  "write_text fs p content =
     (if is_dir fs p then Inl (IsADirectoryError ''Is a directory'')
      else if \<not> is_dir fs (parent p) then Inl (FileNotFoundError ''No such file or directory'')
      else Inr (fs\<lparr>nodes := AList.update p (File content) (nodes fs)\<rparr>))"

text \<open>
  \<^verbatim>\<open>os.makedirs(d, exist_ok=True)\<close>: every missing ancestor is created, from the
  outermost one, then \<^verbatim>\<open>d\<close>; a regular file in the way raises.
\<close>

definition ancestors :: "path \<Rightarrow> path list" where
  "ancestors p = map (\<lambda>n. take n p) [1..<Suc (length p)]"

fun mkdir_each :: "filesystem \<Rightarrow> path list \<Rightarrow> exn + filesystem" where
  "mkdir_each fs [] = Inr fs"
| "mkdir_each fs (q # qs) =
     (case node_at fs q of
        Some Dir \<Rightarrow> mkdir_each fs qs
      | Some (File c) \<Rightarrow> Inl (FileExistsError ''File exists'')
      | None \<Rightarrow> mkdir_each (fs\<lparr>nodes := nodes fs @ [(q, Dir)]\<rparr>) qs)"

definition makedirs :: "filesystem \<Rightarrow> string \<Rightarrow> exn + filesystem" where
  "makedirs fs d = mkdir_each fs (ancestors (Path d))"

section \<open>The program\<close>

text \<open>
  What the program does not decide: whether the model loads, what the engine returns for
  a file, and what the clock shows at each reading.
\<close>

record 'm env =
  load_model :: "exn + 'm"
  transcribe :: "'m \<Rightarrow> path \<Rightarrow> exn + result"
  now :: "nat \<Rightarrow> datetime"

record state =
  filesys :: filesystem
  stdout :: "event list"
  ticks :: nat

definition print :: "state \<Rightarrow> event \<Rightarrow> state" where
  "print st e = st\<lparr>stdout := stdout st @ [e]\<rparr>"

text \<open>Lines 73 to 76: where the document goes.\<close>

definition output_path :: "string option \<Rightarrow> path \<Rightarrow> exn + path" where
  "output_path output_dir audio_path =
     (if truthy output_dir
      then Inr (truediv (Path (the output_dir)) (stem audio_path @ ''.md''))
      else with_suffix audio_path ''.md'')"

definition transcribe_to_markdown ::
  "'m env \<Rightarrow> state \<Rightarrow> path \<Rightarrow> 'm \<Rightarrow> string option \<Rightarrow> state \<times> (exn + path)" where
  "transcribe_to_markdown env st audio_path model output_dir =
     (let st1 = print st (Transcribing (name audio_path)) in
      case transcribe env model audio_path of
        Inl e \<Rightarrow> (st1, Inl e)
      | Inr r \<Rightarrow>
          let content = md_content audio_path (now env (ticks st1)) r;
              st2 = st1\<lparr>ticks := Suc (ticks st1)\<rparr>
          in case output_path output_dir audio_path of
               Inl e \<Rightarrow> (st2, Inl e)
             | Inr p \<Rightarrow>
                 (case write_text (filesys st2) p content of
                    Inl e \<Rightarrow> (st2, Inl e)
                  | Inr fs' \<Rightarrow> (print (st2\<lparr>filesys := fs'\<rparr>) (Saved p), Inr p)))"

text \<open>The loop over the sorted files, with its \<^verbatim>\<open>try\<close> and \<^verbatim>\<open>except Exception\<close>.\<close>

fun batch :: "'m env \<Rightarrow> 'm \<Rightarrow> string option \<Rightarrow> path list \<Rightarrow> state \<Rightarrow> state" where
  "batch env model output_dir [] st = st"
| "batch env model output_dir (audio_file # rest) st =
     (case transcribe_to_markdown env st audio_file model output_dir of
        (st', Inl e) \<Rightarrow>
          batch env model output_dir rest
            (print st' (TranscribeFailed (name audio_file) (str_exn e)))
      | (st', Inr p) \<Rightarrow> batch env model output_dir rest st')"

text \<open>Lines 148 to 154; falling off the end of \<^verbatim>\<open>main\<close> is exit code 0.\<close>

definition run_batch ::
  "'m env \<Rightarrow> 'm \<Rightarrow> string option \<Rightarrow> path list \<Rightarrow> state \<Rightarrow> int \<times> state" where
  "run_batch env model output_dir audio_files st =
     (0, print (batch env model output_dir (sort audio_files) st) AllDone)"

text \<open>The list that the batch loop walks through.\<close>

definition resolve :: "filesystem \<Rightarrow> string list \<Rightarrow> path list \<Rightarrow> path list" where
  "resolve fs exts input_paths = sort (fst (collect fs exts input_paths [] []))"

text \<open>Lines 111 and 112: \<^verbatim>\<open>if output_dir: os.makedirs(output_dir, exist_ok=True)\<close>\<close>

definition make_output_dir :: "filesystem \<Rightarrow> string option \<Rightarrow> exn + filesystem" where
  "make_output_dir fs0 output_dir =
     (if truthy output_dir then makedirs fs0 (the output_dir) else Inr fs0)"

text \<open>
  \<^verbatim>\<open>main\<close>, from \<^verbatim>\<open>sys.argv\<close> and the file system to the exit code and the final state.
  \<^verbatim>\<open>sys.exit(1)\<close> ends the run with code 1; so does an exception that nothing catches,
  after its traceback.
\<close>

definition main :: "'m env \<Rightarrow> string list \<Rightarrow> filesystem \<Rightarrow> int \<times> state" where
  "main env argv fs0 =
     (let st0 = \<lparr>filesys = fs0, stdout = [], ticks = 0\<rparr> in
      if length argv < 2 then (1, print st0 Usage)
      else
        case parse_loop (tl argv) 0 None [] of (output_dir, input_paths) \<Rightarrow>
          (case make_output_dir fs0 output_dir of
             Inl e \<Rightarrow> (1, print st0 (Traceback e))
           | Inr fs1 \<Rightarrow>
               (case collect fs1 AUDIO_EXTENSIONS input_paths [] [] of (audio_files, out) \<Rightarrow>
                  let st2 = \<lparr>filesys = fs1, stdout = out, ticks = 0\<rparr> in
                  if audio_files = [] then (1, print st2 NoAudioFound)
                  else
                    let st3 = print (print st2 (Found (length audio_files))) Loading in
                    case load_model env of
                      Inl e \<Rightarrow> (1, print st3 (LoadFailed (str_exn e)))
                    | Inr model \<Rightarrow>
                        run_batch env model output_dir audio_files (print st3 LoadDone))))"

section \<open>Argument parsing: properties\<close>

lemma parse_loop_no_flag:
  "''-o'' \<notin> set (drop i args) \<Longrightarrow>
   parse_loop args i od ips = (od, ips @ map Path (drop i args))"
proof (induction args i od ips rule: parse_loop.induct)
  case (1 args i od ips)
  show ?case
  proof (cases "i < length args")
    case False
    then show ?thesis by (simp add: parse_loop.simps [of args i])
  next
    case True
    then have d: "drop i args = args ! i # drop (Suc i) args"
      by (simp add: Cons_nth_drop_Suc)
    with "1.prems" have ne: "args ! i \<noteq> ''-o''" and rest: "''-o'' \<notin> set (drop (i + 1) args)"
      by auto
    from "1.IH"(2) [OF True _ rest] ne
    have "parse_loop args (i + 1) od (ips @ [Path (args ! i)]) =
          (od, (ips @ [Path (args ! i)]) @ map Path (drop (i + 1) args))"
      by simp
    with True ne d show ?thesis
      by (simp add: parse_loop.simps [of args i])
  qed
qed

lemma parse_loop_done:
  "length args \<le> i \<Longrightarrow> parse_loop args i od ips = (od, ips)"
  by (simp add: parse_loop.simps [of args i])

lemma parse_loop_last:
  "i + 1 = length args \<Longrightarrow> parse_loop args i od ips = (od, ips @ [Path (args ! i)])"
  by (simp add: parse_loop.simps [of args i] parse_loop_done)

lemma parse_loop_flag:
  "i + 1 < length args \<Longrightarrow> args ! i = ''-o'' \<Longrightarrow>
   parse_loop args i od ips = parse_loop args (i + 2) (Some (args ! (i + 1))) ips"
  by (simp add: parse_loop.simps [of args i])

lemma parse_loop_skip:
  "i + k \<le> length args \<Longrightarrow> ''-o'' \<notin> set (take k (drop i args)) \<Longrightarrow>
   parse_loop args i od ips = parse_loop args (i + k) od (ips @ map Path (take k (drop i args)))"
proof (induction k arbitrary: i ips)
  case 0
  then show ?case by simp
next
  case (Suc k)
  then have lt: "i < length args" by simp
  then have d: "drop i args = args ! i # drop (Suc i) args"
    by (simp add: Cons_nth_drop_Suc)
  with Suc.prems have ne: "args ! i \<noteq> ''-o''"
    and rest: "''-o'' \<notin> set (take k (drop (Suc i) args))"
    by auto
  from Suc.prems have le: "Suc i + k \<le> length args" by simp
  have "parse_loop args i od ips = parse_loop args (Suc i) od (ips @ [Path (args ! i)])"
    using lt ne by (simp add: parse_loop.simps [of args i])
  also have "\<dots> = parse_loop args (Suc i + k) od
      ((ips @ [Path (args ! i)]) @ map Path (take k (drop (Suc i) args)))"
    by (rule Suc.IH [OF le rest])
  finally show ?case by (simp add: d)
qed

lemma parse_args_trailing_flag:
  assumes n: "''-o'' \<notin> set xs"
  shows "parse_args (xs @ [''-o'']) = (None, map Path xs @ [Path ''-o''])"
proof -
  have "parse_loop (xs @ [''-o'']) 0 None [] =
        parse_loop (xs @ [''-o'']) (0 + length xs) None
          ([] @ map Path (take (length xs) (drop 0 (xs @ [''-o'']))))"
    by (rule parse_loop_skip) (use n in simp_all)
  also have "\<dots> = (None, map Path xs @ [Path ''-o''])"
    using parse_loop_last [of "length xs" "xs @ [''-o'']" None "map Path xs"] by simp
  finally show ?thesis by (simp add: parse_args_def)
qed

lemma parse_loop_last_wins:
  "i + 1 < length args \<Longrightarrow> args ! i = ''-o'' \<Longrightarrow> ''-o'' \<notin> set (drop (i + 2) args) \<Longrightarrow>
   fst (parse_loop args i od ips) = Some (args ! (i + 1))"
  by (simp add: parse_loop_flag parse_loop_no_flag)

lemma collect_append:
  "collect fs exts (ps @ qs) af out =
     (case collect fs exts ps af out of (af', out') \<Rightarrow> collect fs exts qs af' out')"
  by (induction ps arbitrary: af out) auto

text \<open>
  C10, as stated, fails: a final \<^verbatim>\<open>-o\<close> that follows another \<^verbatim>\<open>-o\<close> is taken as the value
  of that flag. It is not appended to the input paths, and the output directory is set.
\<close>

theorem C10_final_flag_counterexample:
  "last [''-o'', ''-o''] = ''-o'' \<and> parse_args [''-o'', ''-o''] = (Some ''-o'', [])"
  by (simp add: parse_args_def parse_loop.simps)

text \<open>
  C10, amended. When the scan stands on a final \<^verbatim>\<open>-o\<close> (one that the flag before it has
  not taken as its value), the \<^verbatim>\<open>-o\<close> is appended to the input paths and the output
  directory stays as the earlier arguments left it; it stays unset when no earlier argument
  is \<^verbatim>\<open>-o\<close>. Where no file or directory of that name exists, the path is warned about and
  adds no audio file. When the scan takes an \<^verbatim>\<open>-o\<close> with a value and no \<^verbatim>\<open>-o\<close> follows the
  value, that value is the output directory, whatever was set before.
\<close>

theorem C10_final_flag_and_last_value:
  "(i + 1 = length args \<and> args ! i = ''-o'' \<longrightarrow>
      parse_loop args i od ips = (od, ips @ [Path ''-o'']))
   \<and> (''-o'' \<notin> set xs \<longrightarrow> parse_args (xs @ [''-o'']) = (None, map Path xs @ [Path ''-o'']))
   \<and> (\<not> is_file fs (Path ''-o'') \<and> \<not> is_dir fs (Path ''-o'') \<longrightarrow>
        collect fs exts (ps @ [Path ''-o'']) af out =
          (fst (collect fs exts ps af out),
           snd (collect fs exts ps af out) @ [WarnMissing (Path ''-o'')]))
   \<and> (j + 1 < length args \<and> args ! j = ''-o'' \<and> ''-o'' \<notin> set (drop (j + 2) args) \<longrightarrow>
        fst (parse_loop args j od ips) = Some (args ! (j + 1)))"
proof (intro conjI impI)
  assume "i + 1 = length args \<and> args ! i = ''-o''"
  then show "parse_loop args i od ips = (od, ips @ [Path ''-o''])"
    using parse_loop_last [of i args od ips] by simp
next
  assume "''-o'' \<notin> set xs"
  then show "parse_args (xs @ [''-o'']) = (None, map Path xs @ [Path ''-o''])"
    by (rule parse_args_trailing_flag)
next
  assume "\<not> is_file fs (Path ''-o'') \<and> \<not> is_dir fs (Path ''-o'')"
  then show "collect fs exts (ps @ [Path ''-o'']) af out =
          (fst (collect fs exts ps af out),
           snd (collect fs exts ps af out) @ [WarnMissing (Path ''-o'')])"
    by (simp add: collect_append split: prod.splits)
next
  assume "j + 1 < length args \<and> args ! j = ''-o'' \<and> ''-o'' \<notin> set (drop (j + 2) args)"
  then show "fst (parse_loop args j od ips) = Some (args ! (j + 1))"
    by (simp add: parse_loop_last_wins)
qed

theorem C10_final_flag_and_last_value_witness:
  "parse_loop [''a.mp3'', ''-o''] 1 None [Path ''a.mp3''] = (None, [Path ''a.mp3'', Path ''-o''])
   \<and> parse_args [''a.mp3'', ''-o''] = (None, [Path ''a.mp3'', Path ''-o''])
   \<and> collect \<lparr>nodes = [], case_sensitive = True\<rparr> AUDIO_EXTENSIONS [Path ''-o''] [] [] =
        ([], [WarnMissing (Path ''-o'')])
   \<and> fst (parse_loop [''-o'', ''x'', ''a.mp3'', ''-o'', ''y''] 3 (Some ''x'') [Path ''a.mp3''])
       = Some ''y''"
  using C10_final_flag_and_last_value [of 1 "[''a.mp3'', ''-o'']" None "[Path ''a.mp3'']"
      "[''a.mp3'']" "\<lparr>nodes = [], case_sensitive = True\<rparr>" AUDIO_EXTENSIONS "[]" "[]" "[]"]
    C10_final_flag_and_last_value [of 0 "[''-o'', ''x'', ''a.mp3'', ''-o'', ''y'']" "Some ''x''"
      "[Path ''a.mp3'']" "[]" "\<lparr>nodes = [], case_sensitive = True\<rparr>" AUDIO_EXTENSIONS
      "[]" "[]" "[]" 3]
  by (simp add: is_file_def is_dir_def node_at_def Path_def)

section \<open>Timestamps: properties\<close>

lemma digit_char_0: "digit_char 0 = CHR ''0''"
  by (simp add: digit_char_def)

lemma digits_lt10: "n < 10 \<Longrightarrow> digits n = [digit_char n]"
  by (simp add: digits.simps [of n])

lemma digits_lt100:
  "10 \<le> n \<Longrightarrow> n < 100 \<Longrightarrow> digits n = [digit_char (n div 10), digit_char (n mod 10)]"
  by (simp add: digits.simps [of n] digits_lt10)

lemma length_digits_ge2: "10 \<le> n \<Longrightarrow> 2 \<le> length (digits n)"
  by (simp add: digits.simps [of n] digits.simps [of "n div 10"])

lemma fmt0d_2_small:
  "0 \<le> k \<Longrightarrow> k < 100 \<Longrightarrow> fmt0d 2 k = [digit_char (nat k div 10), digit_char (nat k mod 10)]"
proof (cases "k < 10")
  case True
  assume "0 \<le> k"
  with True show ?thesis
    by (simp add: fmt0d_def zfill_def digits_lt10 digit_char_0)
next
  case False
  assume "k < 100"
  with False show ?thesis
    by (simp add: fmt0d_def zfill_def digits_lt100)
qed

lemma fmt0d_2_big: "100 \<le> k \<Longrightarrow> fmt0d 2 k = digits (nat k)"
  using length_digits_ge2 [of "nat k"] by (simp add: fmt0d_def zfill_def)








lemma fmt0d_int: "fmt0d w (int k) = zfill w (digits k)"
  by (simp add: fmt0d_def)

lemma zfill2_small: "k < 100 \<Longrightarrow> zfill 2 (digits k) = [digit_char (k div 10), digit_char (k mod 10)]"
  using fmt0d_2_small [of "int k"] by (simp add: fmt0d_int)




section \<open>Rendering: properties\<close>

lemma segment_loop_eq:
  "segment_loop sgs md = md @ concat (map (\<lambda>sg. [segment_line sg, []]) sgs)"
  by (induction sgs arbitrary: md) simp_all

lemma join_lines_append:
  "xs \<noteq> [] \<Longrightarrow> ys \<noteq> [] \<Longrightarrow>
   join_lines (xs @ ys) = join_lines xs @ [CHR 0x0A] @ join_lines ys"
proof (induction xs rule: join_lines.induct)
  case 1
  then show ?case by simp
next
  case (2 l)
  then show ?case by (cases ys) simp_all
next
  case (3 l m ls)
  then show ?case by simp
qed



lemma digits_4:
  assumes "1000 \<le> n" "n < 10000"
  shows "digits n = [digit_char (n div 1000), digit_char (n div 100 mod 10),
                     digit_char (n div 10 mod 10), digit_char (n mod 10)]"
proof -
  have a: "n div 10 div 10 = n div 100" "n div 100 div 10 = n div 1000"
    using div_mult2_eq [of n 10 10] div_mult2_eq [of n 100 10] by simp_all
  from assms have b: "\<not> n < 10" "\<not> n div 10 < 10" "\<not> n div 100 < 10" "n div 1000 < 10"
    by simp_all
  show ?thesis
    using b
    by (simp add: digits.simps [of n] digits.simps [of "n div 10"] digits.simps [of "n div 100"]
        digits.simps [of "n div 1000"] a)
qed

lemma strftime_shape:
  assumes "1000 \<le> year t" "year t < 10000" "month t < 100" "day t < 100"
    "hour t < 100" "minute t < 100" "second t < 100"
  shows "strftime t =
    [digit_char (year t div 1000), digit_char (year t div 100 mod 10),
     digit_char (year t div 10 mod 10), digit_char (year t mod 10), CHR ''-'',
     digit_char (month t div 10), digit_char (month t mod 10), CHR ''-'',
     digit_char (day t div 10), digit_char (day t mod 10), CHR '' '',
     digit_char (hour t div 10), digit_char (hour t mod 10), CHR '':'',
     digit_char (minute t div 10), digit_char (minute t mod 10), CHR '':'',
     digit_char (second t div 10), digit_char (second t mod 10)]"
proof -
  from assms have "zfill 4 (digits (year t)) = digits (year t)"
    by (simp add: zfill_def digits_4)
  with assms show ?thesis
    by (simp add: strftime_def fmt0d_int zfill2_small digits_4)
qed

lemma md_lines_eq:
  "md_lines p t r =
     [''# '' @ stem p, [], lbl_time @ strftime t @ ''  '',
      lbl_source @ name p @ [CHR 0x60] @ ''  '',
      lbl_language @ (case res_language r of None \<Rightarrow> ''unknown'' | Some l \<Rightarrow> l),
      [], ''---'', [], h2_transcript, []] @
     concat (map (\<lambda>sg. [''**['' @ format_timestamp (seg_start sg) @ '' - '' @
                          format_timestamp (seg_end sg) @ '']** '' @ strip (seg_text sg), []])
                 (res_segments r)) @
     [''---'', [], h2_plain, [], strip (res_text r), []]"
  by (simp add: md_lines_def md_header_def segment_loop_eq segment_line_def get_language_def)

lemma md_content_split:
  "md_content p t r =
     (''# '' @ stem p @ [CHR 0x0A, CHR 0x0A] @ lbl_time) @ strftime t @
     (''  '' @ [CHR 0x0A] @
      join_lines (tl (tl (tl (md_lines p t r)))))"
  by (simp add: md_content_def md_lines_def md_header_def segment_loop_eq)

lemma md_lines_tail_clock:
  "tl (tl (tl (md_lines p t r))) = tl (tl (tl (md_lines p t' r)))"
  by (simp add: md_lines_def md_header_def segment_loop_eq)




text \<open>
  C8. Two renderings of the same transcript of the same file at two clock readings have
  the same number of lines and agree on every line but the third, which carries the
  generation time; the document is a fixed text before the time and a fixed text after it,
  so two renderings with the same generation time are the same bytes.
\<close>

theorem C8_render_deterministic:
  "length (md_lines p t r) = length (md_lines p t' r)
   \<and> (\<forall>i. i \<noteq> 2 \<longrightarrow> md_lines p t r ! i = md_lines p t' r ! i)
   \<and> md_lines p t r ! 2 = lbl_time @ strftime t @ ''  ''
   \<and> (\<exists>pre post. \<forall>u. md_content p u r = pre @ strftime u @ post)
   \<and> (strftime t = strftime t' \<longrightarrow> md_content p t r = md_content p t' r)"
proof (intro conjI allI impI)
  show "length (md_lines p t r) = length (md_lines p t' r)"
    by (simp add: md_lines_eq)
  show "md_lines p t r ! 2 = lbl_time @ strftime t @ ''  ''"
    by (simp add: md_lines_eq)
  fix i :: nat
  assume "i \<noteq> 2"
  then show "md_lines p t r ! i = md_lines p t' r ! i"
    by (simp add: md_lines_eq nth_Cons')
next
  have "md_content p u r =
      (''# '' @ stem p @ [CHR 0x0A, CHR 0x0A] @ lbl_time) @ strftime u @
      (''  '' @ [CHR 0x0A] @ join_lines (tl (tl (tl (md_lines p t r)))))" for u
    by (subst md_lines_tail_clock [of p t r u]) (rule md_content_split)
  then show "\<exists>pre post. \<forall>u. md_content p u r = pre @ strftime u @ post"
    by blast
next
  assume "strftime t = strftime t'"
  then show "md_content p t r = md_content p t' r"
    using md_content_split [of p t r] md_content_split [of p t' r]
      md_lines_tail_clock [of p t r t'] by simp
qed

theorem C8_render_deterministic_witness:
  "(3::nat) \<noteq> 2
   \<and> md_lines [''talk.wav''] \<lparr>year = 2026, month = 11, day = 3, hour = 9, minute = 5, second = 7\<rparr>
        \<lparr>res_language = Some ''zh'', res_segments = [], res_text = ''hi''\<rparr> ! 3 =
      md_lines [''talk.wav''] \<lparr>year = 2027, month = 1, day = 2, hour = 3, minute = 4, second = 5\<rparr>
        \<lparr>res_language = Some ''zh'', res_segments = [], res_text = ''hi''\<rparr> ! 3
   \<and> md_lines [''talk.wav''] \<lparr>year = 2026, month = 11, day = 3, hour = 9, minute = 5, second = 7\<rparr>
        \<lparr>res_language = Some ''zh'', res_segments = [], res_text = ''hi''\<rparr> ! 2 =
      lbl_time @ ''2026-11-03 09:05:07  ''"
  using C8_render_deterministic [of "[''talk.wav'']"
      "\<lparr>year = 2026, month = 11, day = 3, hour = 9, minute = 5, second = 7\<rparr>"
      "\<lparr>res_language = Some ''zh'', res_segments = [], res_text = ''hi''\<rparr>"
      "\<lparr>year = 2027, month = 1, day = 2, hour = 3, minute = 4, second = 5\<rparr>"]
  by (simp add: strftime_shape digit_char_def)

section \<open>Writing: properties\<close>

lemma split_sep_no_sep: "CHR ''/'' \<notin> set s \<Longrightarrow> split_sep s = [s]"
  by (induction s) auto

lemma Path_single:
  "CHR ''/'' \<notin> set s \<Longrightarrow> s \<noteq> [] \<Longrightarrow> s \<noteq> ''.'' \<Longrightarrow> Path s = [s]"
  by (cases s) (auto simp: Path_def split_sep_no_sep)

lemma set_stem_of: "set (stem_of n) \<subseteq> set n"
  by (auto simp: stem_of_def split: option.splits dest: in_set_takeD)

lemma truediv_stem_md:
  assumes "CHR ''/'' \<notin> set n"
  shows "truediv d (stem_of n @ ''.md'') = d @ [stem_of n @ ''.md'']"
proof -
  from assms set_stem_of [of n] have a: "CHR ''/'' \<notin> set (stem_of n @ ''.md'')" by auto
  then have h: "hd (stem_of n @ ''.md'') \<noteq> CHR ''/''"
    by (cases "stem_of n") auto
  have "stem_of n @ ''.md'' \<noteq> ''.''" by (cases "stem_of n") auto
  with a have "Path (stem_of n @ ''.md'') = [stem_of n @ ''.md'']"
    by (simp add: Path_single)
  with h show ?thesis by (simp add: truediv_def)
qed

lemma with_suffix_stem:
  assumes "name p \<noteq> []"
  shows "with_suffix p suf = Inr (parent p @ [stem p @ suf])"
proof -
  from assms have pp: "parent p = butlast p" by (auto simp: parent_def name_def)
  have "(if suffix_of (name p) = [] then name p @ suf
         else take (length (name p) - length (suffix_of (name p))) (name p) @ suf)
        = stem_of (name p) @ suf"
    by (auto simp: suffix_of_def stem_of_def split: option.splits)
  with assms pp show ?thesis
    by (simp add: with_suffix_def Let_def stem_def)
qed

lemma node_at_write_text:
  "write_text fs q c = Inr fs' \<Longrightarrow> node_at fs' q = Some (File c)"
  by (auto simp: write_text_def node_at_def is_dir_def update_conv' split: if_splits)

lemma write_text_existing:
  "is_file fs q \<Longrightarrow> is_dir fs (parent q) \<Longrightarrow>
   write_text fs q c = Inr (fs\<lparr>nodes := AList.update q (File c) (nodes fs)\<rparr>)"
  by (auto simp: write_text_def is_file_def is_dir_def split: option.splits node.splits)

lemma transcribe_to_markdown_ok:
  assumes "transcribe env m p = Inr r" and "output_path od p = Inr q"
    and "write_text (filesys st) q (md_content p (now env (ticks st)) r) = Inr fs'"
  shows "transcribe_to_markdown env st p m od =
     (\<lparr>filesys = fs', stdout = stdout st @ [Transcribing (name p), Saved q],
       ticks = Suc (ticks st)\<rparr>, Inr q)"
  using assms by (simp add: transcribe_to_markdown_def print_def Let_def)


text \<open>
  C6. With a non-empty output directory the document of a source file goes to the stem of
  the file with \<^verbatim>\<open>.md\<close> inside that directory, whatever the directory of the source; with
  no output directory it goes to the same name beside the source. Once the engine has
  returned, the write needs only that the destination is not a directory and that its
  parent is one: whether a file of that name is already there is not looked at, and
  afterwards the destination holds the new document.
\<close>

theorem C6_output_path_and_overwrite:
  "(od = Some d \<and> d \<noteq> [] \<and> CHR ''/'' \<notin> set (name p) \<longrightarrow>
      output_path od p = Inr (Path d @ [stem p @ ''.md'']))
   \<and> ((od = None \<or> od = Some []) \<and> name p \<noteq> [] \<longrightarrow>
      output_path od p = Inr (parent p @ [stem p @ ''.md'']))
   \<and> (transcribe env m p = Inr r \<and> output_path od p = Inr q \<and>
      \<not> is_dir (filesys st) q \<and> is_dir (filesys st) (parent q) \<longrightarrow>
      snd (transcribe_to_markdown env st p m od) = Inr q \<and>
      node_at (filesys (fst (transcribe_to_markdown env st p m od))) q =
        Some (File (md_content p (now env (ticks st)) r)))"
proof (intro conjI impI)
  assume "od = Some d \<and> d \<noteq> [] \<and> CHR ''/'' \<notin> set (name p)"
  then show "output_path od p = Inr (Path d @ [stem p @ ''.md''])"
    by (simp add: output_path_def truthy_def stem_def truediv_stem_md)
next
  assume "(od = None \<or> od = Some []) \<and> name p \<noteq> []"
  then show "output_path od p = Inr (parent p @ [stem p @ ''.md''])"
    by (auto simp: output_path_def truthy_def with_suffix_stem)
next
  assume a: "transcribe env m p = Inr r \<and> output_path od p = Inr q \<and>
      \<not> is_dir (filesys st) q \<and> is_dir (filesys st) (parent q)"
  define c where "c = md_content p (now env (ticks st)) r"
  define fs' where "fs' = (filesys st)\<lparr>nodes := AList.update q (File c) (nodes (filesys st))\<rparr>"
  from a have w: "write_text (filesys st) q c = Inr fs'"
    by (simp add: write_text_def fs'_def)
  from a w have t: "transcribe_to_markdown env st p m od =
     (\<lparr>filesys = fs', stdout = stdout st @ [Transcribing (name p), Saved q],
       ticks = Suc (ticks st)\<rparr>, Inr q)"
    unfolding c_def by (simp add: transcribe_to_markdown_ok)
  from t show "snd (transcribe_to_markdown env st p m od) = Inr q" by simp
  from t node_at_write_text [OF w]
  show "node_at (filesys (fst (transcribe_to_markdown env st p m od))) q =
        Some (File (md_content p (now env (ticks st)) r))"
    by (simp add: c_def)
qed

theorem C6_output_path_and_overwrite_witness:
  "output_path (Some ''outdir'') (Path ''rec/talk.wav'') = Inr [''outdir'', ''talk.md'']
   \<and> output_path None (Path ''rec/talk.wav'') = Inr [''rec'', ''talk.md'']
   \<and> node_at \<lparr>nodes = [([''outdir''], Dir), ([''outdir'', ''talk.md''], File ''old'')],
              case_sensitive = True\<rparr> [''outdir'', ''talk.md''] = Some (File ''old'')
   \<and> node_at (filesys (fst (transcribe_to_markdown
        \<lparr>load_model = Inr (), 
         transcribe = (\<lambda>m p. Inr \<lparr>res_language = None, res_segments = [], res_text = ''hi''\<rparr>),
         now = (\<lambda>n. \<lparr>year = 2026, month = 11, day = 3, hour = 9, minute = 5, second = 7\<rparr>)\<rparr>
        \<lparr>filesys = \<lparr>nodes = [([''outdir''], Dir), ([''outdir'', ''talk.md''], File ''old'')],
                     case_sensitive = True\<rparr>, stdout = [], ticks = 0\<rparr>
        (Path ''rec/talk.wav'') () (Some ''outdir'')))) [''outdir'', ''talk.md''] =
      Some (File (md_content (Path ''rec/talk.wav'')
         \<lparr>year = 2026, month = 11, day = 3, hour = 9, minute = 5, second = 7\<rparr>
         \<lparr>res_language = None, res_segments = [], res_text = ''hi''\<rparr>))"
  using C6_output_path_and_overwrite [of "Some ''outdir''" "''outdir''" "Path ''rec/talk.wav''"
      "\<lparr>load_model = Inr (), 
         transcribe = (\<lambda>m p. Inr \<lparr>res_language = None, res_segments = [], res_text = ''hi''\<rparr>),
         now = (\<lambda>n. \<lparr>year = 2026, month = 11, day = 3, hour = 9, minute = 5, second = 7\<rparr>)\<rparr>"
      "()" "\<lparr>res_language = None, res_segments = [], res_text = ''hi''\<rparr>"
      "[''outdir'', ''talk.md'']"
      "\<lparr>filesys = \<lparr>nodes = [([''outdir''], Dir), ([''outdir'', ''talk.md''], File ''old'')],
                     case_sensitive = True\<rparr>, stdout = [], ticks = 0\<rparr>"]
    C6_output_path_and_overwrite [of None "[]" "Path ''rec/talk.wav''"
      "\<lparr>load_model = Inr (), 
         transcribe = (\<lambda>m p. Inr \<lparr>res_language = None, res_segments = [], res_text = ''hi''\<rparr>),
         now = (\<lambda>n. \<lparr>year = 2026, month = 11, day = 3, hour = 9, minute = 5, second = 7\<rparr>)\<rparr>"
      "()" "\<lparr>res_language = None, res_segments = [], res_text = ''hi''\<rparr>"
      "[''outdir'', ''talk.md'']"
      "\<lparr>filesys = \<lparr>nodes = [([''outdir''], Dir), ([''outdir'', ''talk.md''], File ''old'')],
                     case_sensitive = True\<rparr>, stdout = [], ticks = 0\<rparr>"]
  by (simp add: Path_def name_def parent_def stem_def stem_of_def is_dir_def node_at_def)

section \<open>Collecting the audio files: properties\<close>

lemma mset_glob_exts:
  "mset (glob_exts fs exts d af) =
     mset af + (\<Sum>e\<leftarrow>exts. mset (glob fs d e) + mset (glob fs d (upper e)))"
  by (induction exts arbitrary: af) (simp_all add: ac_simps)

lemma set_glob_exts:
  "set (glob_exts fs exts d af) =
     set af \<union> (\<Union>e\<in>set exts. set (glob fs d e) \<union> set (glob fs d (upper e)))"
  by (induction exts arbitrary: af) auto

lemma mset_glob_cong:
  assumes "mset (iterdir fs' d) = mset (iterdir fs d)"
    and "case_sensitive fs' = case_sensitive fs"
  shows "mset (glob fs' d lit) = mset (glob fs d lit)"
proof -
  have "mset (glob fs' d lit) =
      image_mset (joinpath d) (filter_mset (match_star (case_sensitive fs') lit)
        (mset (iterdir fs' d)))"
    by (simp add: glob_def)
  also have "\<dots> = image_mset (joinpath d) (filter_mset (match_star (case_sensitive fs) lit)
        (mset (iterdir fs d)))"
    by (simp only: assms)
  also have "\<dots> = mset (glob fs d lit)"
    by (simp add: glob_def)
  finally show ?thesis .
qed

lemma sum_list_map_mset_cong:
  fixes f :: "'a \<Rightarrow> 'b multiset"
  assumes "mset xs = mset ys"
  shows "(\<Sum>x\<leftarrow>xs. f x) = (\<Sum>x\<leftarrow>ys. f x)"
proof -
  have "(\<Sum>x\<leftarrow>xs. f x) = sum_mset (mset (map f xs))" by (simp only: sum_mset_sum_list)
  also have "\<dots> = sum_mset (mset (map f ys))" using assms by (simp del: sum_mset_sum_list)
  also have "\<dots> = (\<Sum>x\<leftarrow>ys. f x)" by (simp only: sum_mset_sum_list)
  finally show ?thesis .
qed

lemma mset_glob_exts_cong:
  assumes i: "mset (iterdir fs' d) = mset (iterdir fs d)"
    and c: "case_sensitive fs' = case_sensitive fs"
    and e: "mset exts' = mset exts"
    and a: "mset af' = mset af"
  shows "mset (glob_exts fs' exts' d af') = mset (glob_exts fs exts d af)"
proof -
  have "(\<Sum>e\<leftarrow>exts'. mset (glob fs' d e) + mset (glob fs' d (upper e))) =
        (\<Sum>e\<leftarrow>exts'. mset (glob fs d e) + mset (glob fs d (upper e)))"
    by (simp only: mset_glob_cong [OF i c])
  also have "\<dots> = (\<Sum>e\<leftarrow>exts. mset (glob fs d e) + mset (glob fs d (upper e)))"
    by (rule sum_list_map_mset_cong [OF e])
  finally show ?thesis by (simp only: mset_glob_exts a)
qed

lemma mset_collect_cong:
  assumes n: "\<forall>p. node_at fs' p = node_at fs p"
    and i: "\<forall>d. mset (iterdir fs' d) = mset (iterdir fs d)"
    and c: "case_sensitive fs' = case_sensitive fs"
    and e: "mset exts' = mset exts"
  shows "mset af' = mset af \<Longrightarrow>
     mset (fst (collect fs' exts' ips af' out')) = mset (fst (collect fs exts ips af out))"
proof (induction ips arbitrary: af af' out out')
  case Nil
  then show ?case by simp
next
  case (Cons p ps)
  from n have f: "is_file fs' p = is_file fs p" and d: "is_dir fs' p = is_dir fs p"
    by (simp_all add: is_file_def is_dir_def)
  from i have ip: "mset (iterdir fs' p) = mset (iterdir fs p)" by simp
  have g: "mset (glob_exts fs' exts' p af') = mset (glob_exts fs exts p af)"
    by (rule mset_glob_exts_cong [OF ip c e Cons.prems])
  have a1: "mset (af' @ [p]) = mset (af @ [p])" using Cons.prems by simp
  show ?case
    using Cons.IH [OF a1] Cons.IH [OF g] Cons.IH [OF Cons.prems]
    by (simp add: f d)
qed

lemma mset_collect_mono:
  "mset af \<subseteq># mset (fst (collect fs exts ips af out))"
proof (induction ips arbitrary: af out)
  case Nil
  then show ?case by simp
next
  case (Cons p ps)
  have a: "mset af \<subseteq># mset (af @ [p])" by simp
  have b: "mset af \<subseteq># mset (glob_exts fs exts p af)" by (simp add: mset_glob_exts)
  show ?case
    using subset_mset.order_trans [OF a Cons.IH [of "af @ [p]" out]]
      subset_mset.order_trans [OF b Cons.IH [of "glob_exts fs exts p af" out]]
      Cons.IH [of af "out @ [WarnMissing p]"]
    by simp
qed

lemma count_collect_file:
  assumes "is_file fs p"
  shows "count (mset af) p + count_list ips p \<le> count (mset (fst (collect fs exts ips af out))) p"
proof (induction ips arbitrary: af out)
  case Nil
  then show ?case by simp
next
  case (Cons q qs)
  show ?case
  proof (cases "is_file fs q")
    case True
    with Cons.IH [of "af @ [q]" out] show ?thesis by (auto split: if_splits)
  next
    case False
    with assms have ne: "q \<noteq> p" by auto
    have b: "count (mset af) p \<le> count (mset (glob_exts fs exts q af)) p"
      by (simp add: mset_glob_exts)
    from False ne b Cons.IH [of "glob_exts fs exts q af" out]
      Cons.IH [of af "out @ [WarnMissing q]"]
    show ?thesis by simp
  qed
qed

text \<open>
  C3, amended. For every list of path arguments the files that the batch loop walks through
  are the collected files in lexicographic order: a sorted list with the same elements,
  each as often as it was collected. The list does not depend on the order in which a
  directory scan returns the children nor on the order in which the extensions are tried.
  Nothing removes duplicates: a regular file occurs in the list at least as often as it
  occurs among the arguments.
\<close>

theorem C3_resolver_sorted:
  "sorted (resolve fs exts ips)
   \<and> mset (resolve fs exts ips) = mset (fst (collect fs exts ips [] []))
   \<and> ((\<forall>p. node_at fs' p = node_at fs p) \<and> (\<forall>d. mset (iterdir fs' d) = mset (iterdir fs d)) \<and>
      case_sensitive fs' = case_sensitive fs \<and> mset exts' = mset exts \<longrightarrow>
      resolve fs' exts' ips = resolve fs exts ips)
   \<and> (is_file fs p \<longrightarrow> count_list ips p \<le> count_list (resolve fs exts ips) p)"
proof (intro conjI impI)
  show "sorted (resolve fs exts ips)" by (simp add: resolve_def)
  show "mset (resolve fs exts ips) = mset (fst (collect fs exts ips [] []))"
    by (simp add: resolve_def)
next
  assume a: "(\<forall>p. node_at fs' p = node_at fs p) \<and>
      (\<forall>d. mset (iterdir fs' d) = mset (iterdir fs d)) \<and>
      case_sensitive fs' = case_sensitive fs \<and> mset exts' = mset exts"
  then have "mset (fst (collect fs' exts' ips [] [])) = mset (fst (collect fs exts ips [] []))"
    by (intro mset_collect_cong) simp_all
  then show "resolve fs' exts' ips = resolve fs exts ips"
    unfolding resolve_def by (intro properties_for_sort) simp_all
next
  assume "is_file fs p"
  from count_collect_file [OF this, of "[]" ips exts "[]"]
  show "count_list ips p \<le> count_list (resolve fs exts ips) p"
    by (simp add: resolve_def count_mset [symmetric])
qed


text \<open>
  C3, as stated, fails: a file named by two arguments is in the list twice.
\<close>

theorem C3_duplicate_counterexample:
  "is_file \<lparr>nodes = [([''a.mp3''], File [])], case_sensitive = True\<rparr> (Path ''a.mp3'')
   \<and> resolve \<lparr>nodes = [([''a.mp3''], File [])], case_sensitive = True\<rparr> AUDIO_EXTENSIONS
       [Path ''a.mp3'', Path ''a.mp3''] = [[''a.mp3''], [''a.mp3'']]
   \<and> \<not> distinct (resolve \<lparr>nodes = [([''a.mp3''], File [])], case_sensitive = True\<rparr>
       AUDIO_EXTENSIONS [Path ''a.mp3'', Path ''a.mp3''])"
  by (simp add: resolve_def Path_def is_file_def node_at_def)

theorem C3_resolver_sorted_witness:
  "resolve \<lparr>nodes = [([''d'', ''c.wav''], File []), ([''d''], Dir), ([''d'', ''a.MP3''], File [])],
            case_sensitive = True\<rparr>
      [''.wav'', ''.mp3'', ''.flac'', ''.m4a'', ''.ogg'', ''.wma'', ''.aac''] [[''d'']] =
   resolve \<lparr>nodes = [([''d''], Dir), ([''d'', ''a.MP3''], File []), ([''d'', ''c.wav''], File [])],
            case_sensitive = True\<rparr> AUDIO_EXTENSIONS [[''d'']]
   \<and> is_file \<lparr>nodes = [([''d''], Dir), ([''d'', ''a.MP3''], File []), ([''d'', ''c.wav''], File [])],
            case_sensitive = True\<rparr> [''d'', ''c.wav'']
   \<and> 2 \<le> count_list (resolve 
         \<lparr>nodes = [([''d''], Dir), ([''d'', ''a.MP3''], File []), ([''d'', ''c.wav''], File [])],
            case_sensitive = True\<rparr> AUDIO_EXTENSIONS [[''d'', ''c.wav''], [''d''], [''d'', ''c.wav'']])
         [''d'', ''c.wav'']"
proof -
  let ?fs = "\<lparr>nodes = [([''d''], Dir), ([''d'', ''a.MP3''], File []), ([''d'', ''c.wav''], File [])],
            case_sensitive = True\<rparr>"
  let ?fs' = "\<lparr>nodes = [([''d'', ''c.wav''], File []), ([''d''], Dir), ([''d'', ''a.MP3''], File [])],
            case_sensitive = True\<rparr>"
  let ?exts' = "[''.wav'', ''.mp3'', ''.flac'', ''.m4a'', ''.ogg'', ''.wma'', ''.aac'']"
  have n: "\<forall>p. node_at ?fs' p = node_at ?fs p"
    by (simp add: node_at_def)
  have i: "\<forall>d. mset (iterdir ?fs' d) = mset (iterdir ?fs d)"
    by (simp add: iterdir_def)
  have e: "mset ?exts' = mset AUDIO_EXTENSIONS"
    by (simp add: AUDIO_EXTENSIONS_def)
  have f: "is_file ?fs [''d'', ''c.wav'']"
    by (simp add: is_file_def node_at_def)
  from C3_resolver_sorted [of ?fs AUDIO_EXTENSIONS "[[''d'']]" ?fs' ?exts'] n i e
  have 1: "resolve ?fs' ?exts' [[''d'']] = resolve ?fs AUDIO_EXTENSIONS [[''d'']]" by simp
  from C3_resolver_sorted [of ?fs AUDIO_EXTENSIONS "[[''d'', ''c.wav''], [''d''], [''d'', ''c.wav'']]" ?fs ?exts'
      "[''d'', ''c.wav'']"] f
  have 2: "2 \<le> count_list (resolve ?fs AUDIO_EXTENSIONS [[''d'', ''c.wav''], [''d''], [''d'', ''c.wav'']])
         [''d'', ''c.wav'']" by simp
  from 1 f 2 show ?thesis by blast
qed


lemma set_glob:
  "set (glob fs d lit) = {d @ [n] |n. n \<in> set (iterdir fs d) \<and> match_star (case_sensitive fs) lit n}"
  by (auto simp: glob_def joinpath_def)

lemma set_iterdir:
  "set (iterdir fs d) = {n. d @ [n] \<in> fst ` set (nodes fs) \<and> d @ [n] \<noteq> [''/'']}"
proof (intro set_eqI iffI)
  fix n
  assume "n \<in> set (iterdir fs d)"
  then obtain q where q: "q \<in> fst ` set (nodes fs)" "q \<noteq> []" "q \<noteq> [''/'']" "butlast q = d"
    and n: "n = last q"
    by (auto simp: iterdir_def)
  from q(2,4) n have "q = d @ [n]"
    using append_butlast_last_id [of q] by simp
  with q show "n \<in> {n. d @ [n] \<in> fst ` set (nodes fs) \<and> d @ [n] \<noteq> [''/'']}" by simp
next
  fix n
  assume "n \<in> {n. d @ [n] \<in> fst ` set (nodes fs) \<and> d @ [n] \<noteq> [''/'']}"
  then have "d @ [n] \<in> set (filter (\<lambda>q. q \<noteq> [] \<and> q \<noteq> [''/''] \<and> butlast q = d)
                               (map fst (nodes fs)))"
    by simp
  then have "last (d @ [n]) \<in> last ` set (filter (\<lambda>q. q \<noteq> [] \<and> q \<noteq> [''/''] \<and> butlast q = d)
                               (map fst (nodes fs)))"
    by (rule imageI)
  then show "n \<in> set (iterdir fs d)"
    unfolding iterdir_def set_remdups set_map by simp
qed

lemma is_dir_not_file: "is_dir fs d \<Longrightarrow> \<not> is_file fs d"
  by (auto simp: is_dir_def is_file_def split: option.splits node.splits)


text \<open>
  C4, amended. A regular-file argument is appended without a look at its extension. A
  directory argument contributes exactly those direct children whose name matches
  \<^verbatim>\<open>*ext\<close> or \<^verbatim>\<open>*EXT\<close> for a recognized extension, in its spelling of the set or in capitals,
  and prints nothing; the direct children are the nodes one component below the directory.
  On a case-sensitive flavour a name matches when it ends with the pattern's text as it is
  written, so a mixed-case spelling is not found; on a case-insensitive flavour it matches
  when it ends with it up to case.
\<close>

theorem C4_directory_scan:
  "(is_file fs p \<longrightarrow> collect fs exts [p] af out = (af @ [p], out))
   \<and> (is_dir fs d \<longrightarrow>
        set (fst (collect fs exts [d] [] out)) =
          {d @ [n] |n. n \<in> set (iterdir fs d) \<and>
             (\<exists>e\<in>set exts. match_star (case_sensitive fs) e n \<or>
                           match_star (case_sensitive fs) (upper e) n)}
        \<and> snd (collect fs exts [d] [] out) = out)
   \<and> set (iterdir fs d) = {n. d @ [n] \<in> fst ` set (nodes fs) \<and> d @ [n] \<noteq> [''/'']}
   \<and> (match_star True e n \<longleftrightarrow> suffix e n)
   \<and> (match_star False e n \<longleftrightarrow> suffix (lower e) (lower n))"
proof (intro conjI impI)
  assume "is_file fs p"
  then show "collect fs exts [p] af out = (af @ [p], out)" by simp
next
  assume d: "is_dir fs d"
  then have c: "collect fs exts [d] [] out = (glob_exts fs exts d [], out)"
    by (simp add: is_dir_not_file)
  show "set (fst (collect fs exts [d] [] out)) =
          {d @ [n] |n. n \<in> set (iterdir fs d) \<and>
             (\<exists>e\<in>set exts. match_star (case_sensitive fs) e n \<or>
                           match_star (case_sensitive fs) (upper e) n)}"
    unfolding c by (auto simp: set_glob_exts set_glob)
  show "snd (collect fs exts [d] [] out) = out" unfolding c by simp
next
  show "set (iterdir fs d) = {n. d @ [n] \<in> fst ` set (nodes fs) \<and> d @ [n] \<noteq> [''/'']}"
    by (rule set_iterdir)
  show "match_star True e n \<longleftrightarrow> suffix e n" by (simp add: match_star_def)
  show "match_star False e n \<longleftrightarrow> suffix (lower e) (lower n)" by (simp add: match_star_def)
qed

text \<open>
  C4, as stated, fails on a case-sensitive flavour: the only child of the directory has the
  extension \<^verbatim>\<open>.Mp3\<close>, a mixed-case spelling of \<^verbatim>\<open>.mp3\<close>, and nothing is resolved.
\<close>

theorem C4_mixed_case_counterexample:
  "is_dir \<lparr>nodes = [([''d''], Dir), ([''d'', ''a.Mp3''], File [])], case_sensitive = True\<rparr> [''d'']
   \<and> iterdir \<lparr>nodes = [([''d''], Dir), ([''d'', ''a.Mp3''], File [])], case_sensitive = True\<rparr> [''d'']
       = [''a.Mp3'']
   \<and> lower (suffix_of ''a.Mp3'') = ''.mp3''
   \<and> resolve \<lparr>nodes = [([''d''], Dir), ([''d'', ''a.Mp3''], File [])], case_sensitive = True\<rparr>
       AUDIO_EXTENSIONS [[''d'']] = []"
  by code_simp

theorem C4_directory_scan_witness:
  "collect \<lparr>nodes = [([''d''], Dir), ([''d'', ''a.MP3''], File []), ([''d'', ''b.txt''], File []),
                     ([''d'', ''c.wav''], File []), ([''d'', ''sub''], Dir),
                     ([''d'', ''sub'', ''x.mp3''], File [])],
            case_sensitive = True\<rparr> AUDIO_EXTENSIONS [[''d'', ''b.txt'']] [] [] = ([[''d'', ''b.txt'']], [])
   \<and> set (fst (collect \<lparr>nodes = [([''d''], Dir), ([''d'', ''a.MP3''], File []), ([''d'', ''b.txt''], File []),
                     ([''d'', ''c.wav''], File []), ([''d'', ''sub''], Dir),
                     ([''d'', ''sub'', ''x.mp3''], File [])],
            case_sensitive = True\<rparr> AUDIO_EXTENSIONS [[''d'']] [] [])) =
       {[''d'', ''a.MP3''], [''d'', ''c.wav'']}
   \<and> snd (collect \<lparr>nodes = [([''d''], Dir), ([''d'', ''a.MP3''], File []), ([''d'', ''b.txt''], File []),
                     ([''d'', ''c.wav''], File []), ([''d'', ''sub''], Dir),
                     ([''d'', ''sub'', ''x.mp3''], File [])],
            case_sensitive = True\<rparr> AUDIO_EXTENSIONS [[''d'']] [] []) = []"
proof -
  let ?fs = "\<lparr>nodes = [([''d''], Dir), ([''d'', ''a.MP3''], File []), ([''d'', ''b.txt''], File []),
                     ([''d'', ''c.wav''], File []), ([''d'', ''sub''], Dir),
                     ([''d'', ''sub'', ''x.mp3''], File [])],
            case_sensitive = True\<rparr>"
  have f: "is_file ?fs [''d'', ''b.txt'']" by (simp add: is_file_def node_at_def)
  have d: "is_dir ?fs [''d'']" by (simp add: is_dir_def node_at_def)
  have 1: "collect ?fs AUDIO_EXTENSIONS [[''d'', ''b.txt'']] [] [] = ([[''d'', ''b.txt'']], [])"
    using C4_directory_scan [of ?fs "[''d'', ''b.txt'']" AUDIO_EXTENSIONS "[]" "[]" "[''d'']"] f by simp
  have 2: "set (fst (collect ?fs AUDIO_EXTENSIONS [[''d'']] [] [])) =
       {[''d'', ''a.MP3''], [''d'', ''c.wav'']}"
    by code_simp
  have 3: "snd (collect ?fs AUDIO_EXTENSIONS [[''d'']] [] []) = []"
    using C4_directory_scan [of ?fs "[''d'', ''b.txt'']" AUDIO_EXTENSIONS "[]" "[]" "[''d'']"] d
    by blast
  from 1 2 3 show ?thesis by blast
qed

section \<open>The batch loop: properties\<close>

lemma node_at_write_text_other:
  assumes "write_text fs q c = Inr fs'"
  shows "node_at fs' x = (if x = q then Some (File c) else node_at fs x)"
proof -
  from assms have nd: "\<not> is_dir fs q"
    and fs': "fs' = fs\<lparr>nodes := AList.update q (File c) (nodes fs)\<rparr>"
    by (auto simp: write_text_def split: if_splits)
  from nd have "q \<noteq> []" "q \<noteq> [''/'']" by (auto simp: is_dir_def node_at_def)
  then show ?thesis by (auto simp: fs' node_at_def update_conv')
qed

lemma write_text_is_dir:
  assumes "write_text fs q c = Inr fs'"
  shows "is_dir fs' x = is_dir fs x"
proof -
  from assms have nd: "\<not> is_dir fs q"
    by (simp add: write_text_def split: if_splits)
  then show ?thesis
    by (cases "x = q") (simp_all add: is_dir_def node_at_write_text_other [OF assms])
qed

lemma write_text_is_file:
  "write_text fs q c = Inr fs' \<Longrightarrow> is_file fs x \<Longrightarrow> is_file fs' x"
  by (auto simp: node_at_write_text_other is_file_def)

lemma write_text_is_file_dest:
  "write_text fs q c = Inr fs' \<Longrightarrow> is_file fs' q"
  by (auto simp: node_at_write_text_other is_file_def)

lemma transcribe_to_markdown_fail:
  "transcribe env m f = Inl e \<Longrightarrow>
   transcribe_to_markdown env st f m od = (print st (Transcribing (name f)), Inl e)"
  by (simp add: transcribe_to_markdown_def)

lemma batch_Cons:
  "batch env m od (f # rest) st = batch env m od rest (batch env m od [f] st)"
  by (simp split: prod.splits sum.splits)

lemma batch_single_fail:
  "transcribe env m f = Inl e \<Longrightarrow>
   batch env m od [f] st =
     print (print st (Transcribing (name f))) (TranscribeFailed (name f) (str_exn e))"
  by (simp add: transcribe_to_markdown_fail)

lemma batch_single_ok:
  assumes "transcribe env m f = Inr r" and "output_path od f = Inr q"
    and "\<not> is_dir (filesys st) q" and "is_dir (filesys st) (parent q)"
  shows "batch env m od [f] st =
     \<lparr>filesys = (filesys st)\<lparr>nodes := AList.update q
          (File (md_content f (now env (ticks st)) r)) (nodes (filesys st))\<rparr>,
      stdout = stdout st @ [Transcribing (name f), Saved q],
      ticks = Suc (ticks st)\<rparr>"
proof -
  from assms(3,4) have "write_text (filesys st) q (md_content f (now env (ticks st)) r) =
     Inr ((filesys st)\<lparr>nodes := AList.update q
          (File (md_content f (now env (ticks st)) r)) (nodes (filesys st))\<rparr>)"
    by (simp add: write_text_def)
  from transcribe_to_markdown_ok [OF assms(1,2) this] show ?thesis by simp
qed



lemma step_inv:
  assumes "transcribe_to_markdown env st f m od = (st', res)"
  shows "(\<forall>x. is_dir (filesys st') x = is_dir (filesys st) x)
   \<and> (\<forall>x. is_file (filesys st) x \<longrightarrow> is_file (filesys st') x)
   \<and> set (stdout st) \<subseteq> set (stdout st')"
proof (cases "transcribe env m f")
  case (Inl e)
  with assms show ?thesis
    by (simp add: transcribe_to_markdown_def print_def) auto
next
  case r: (Inr r)
  show ?thesis
  proof (cases "output_path od f")
    case (Inl e)
    with r assms show ?thesis
      by (simp add: transcribe_to_markdown_def print_def Let_def) auto
  next
    case q: (Inr q)
    show ?thesis
    proof (cases "write_text (filesys st) q (md_content f (now env (ticks st)) r)")
      case (Inl e)
      with r q assms show ?thesis
        by (simp add: transcribe_to_markdown_def print_def Let_def) auto
    next
      case w: (Inr fs')
      with r q assms have st': "st' = \<lparr>filesys = fs',
          stdout = stdout st @ [Transcribing (name f), Saved q], ticks = Suc (ticks st)\<rparr>"
        by (simp add: transcribe_to_markdown_ok)
      show ?thesis
        using write_text_is_dir [OF w] write_text_is_file [OF w]
        by (auto simp: st')
    qed
  qed
qed

lemma batch_single_inv:
  "(\<forall>x. is_dir (filesys (batch env m od [f] st)) x = is_dir (filesys st) x)
   \<and> (\<forall>x. is_file (filesys st) x \<longrightarrow> is_file (filesys (batch env m od [f] st)) x)
   \<and> set (stdout st) \<subseteq> set (stdout (batch env m od [f] st))"
proof -
  obtain st' res where t: "transcribe_to_markdown env st f m od = (st', res)"
    by (cases "transcribe_to_markdown env st f m od")
  from step_inv [OF t] show ?thesis
    by (cases res) (auto simp: t print_def)
qed

lemma batch_inv:
  "(\<forall>x. is_dir (filesys (batch env m od L st)) x = is_dir (filesys st) x)
   \<and> (\<forall>x. is_file (filesys st) x \<longrightarrow> is_file (filesys (batch env m od L st)) x)
   \<and> set (stdout st) \<subseteq> set (stdout (batch env m od L st))"
proof (induction L arbitrary: st)
  case Nil
  then show ?case by simp
next
  case (Cons f L)
  show ?case
    unfolding batch_Cons [of env m od f L st]
    using Cons.IH [of "batch env m od [f] st"] batch_single_inv [of env m od f st]
    by blast
qed

lemma batch_logs_failure:
  assumes "f \<in> set L" and "transcribe env m f = Inl e"
  shows "TranscribeFailed (name f) (str_exn e) \<in> set (stdout (batch env m od L st))"
  using assms(1)
proof (induction L arbitrary: st)
  case Nil
  then show ?case by simp
next
  case (Cons g L)
  show ?case
  proof (cases "f = g")
    case True
    have "TranscribeFailed (name f) (str_exn e) \<in> set (stdout (batch env m od [f] st))"
      unfolding batch_single_fail [OF assms(2)] by (simp add: print_def)
    with True show ?thesis
      unfolding batch_Cons [of env m od g L st]
      using batch_inv [of env m od L "batch env m od [g] st"] by blast
  next
    case False
    with Cons.prems have "f \<in> set L" by simp
    then show ?thesis
      unfolding batch_Cons [of env m od g L st] by (rule Cons.IH)
  qed
qed

lemma batch_saves:
  assumes "g \<in> set L" and "transcribe env m g = Inr r" and "output_path od g = Inr q"
  shows "\<not> is_dir (filesys st) q \<Longrightarrow> is_dir (filesys st) (parent q) \<Longrightarrow>
     Saved q \<in> set (stdout (batch env m od L st)) \<and> is_file (filesys (batch env m od L st)) q"
  using assms(1)
proof (induction L arbitrary: st)
  case Nil
  then show ?case by simp
next
  case (Cons h L)
  let ?st1 = "batch env m od [h] st"
  have inv: "\<forall>x. is_dir (filesys ?st1) x = is_dir (filesys st) x"
    using batch_single_inv [of env m od h st] by blast
  show ?case
  proof (cases "g = h")
    case True
    have s1: "?st1 = \<lparr>filesys = (filesys st)\<lparr>nodes := AList.update q
          (File (md_content g (now env (ticks st)) r)) (nodes (filesys st))\<rparr>,
      stdout = stdout st @ [Transcribing (name g), Saved q],
      ticks = Suc (ticks st)\<rparr>"
      unfolding True [symmetric] by (rule batch_single_ok [OF assms(2,3) Cons.prems(1,2)])
    have w: "write_text (filesys st) q (md_content g (now env (ticks st)) r) = Inr (filesys ?st1)"
      unfolding s1 using Cons.prems(1,2) by (simp add: write_text_def)
    have "Saved q \<in> set (stdout ?st1)" unfolding s1 by simp
    moreover have "is_file (filesys ?st1) q" by (rule write_text_is_file_dest [OF w])
    ultimately show ?thesis
      unfolding batch_Cons [of env m od h L st]
      using batch_inv [of env m od L ?st1] by blast
  next
    case False
    with Cons.prems have "g \<in> set L" by simp
    moreover from inv Cons.prems have "\<not> is_dir (filesys ?st1) q" "is_dir (filesys ?st1) (parent q)"
      by simp_all
    ultimately show ?thesis
      unfolding batch_Cons [of env m od h L st] using Cons.IH [of ?st1] by blast
  qed
qed


lemma main_reaches_batch:
  assumes "2 \<le> length argv" and "parse_loop (tl argv) 0 None [] = (od, ips)"
    and "make_output_dir fs0 od = Inr fs1"
    and "collect fs1 AUDIO_EXTENSIONS ips [] [] = (af, out)" and "af \<noteq> []"
    and "load_model env = Inr m"
  shows "main env argv fs0 =
     run_batch env m od af
       \<lparr>filesys = fs1, stdout = out @ [Found (length af), Loading, LoadDone], ticks = 0\<rparr>"
  using assms by (simp add: main_def print_def Let_def)

lemma fst_run_batch: "fst (run_batch env m od files st) = 0"
  by (simp add: run_batch_def)

lemma run_batch_state:
  "snd (run_batch env m od files st) = print (batch env m od (sort files) st) AllDone"
  by (simp add: run_batch_def)

text \<open>
  C1. When the engine raises for a file, the call for that file returns with the exception
  after its first print, leaving the file system as it was; the loop catches it, prints the
  failure with the name of the file and the message of the exception, and goes on with the
  rest of the files. So the failure is in the output of the batch, every other file of the
  batch whose transcription returns and whose destination can be written is reported as
  saved and is a file afterwards, and the batch, and a run of \<^verbatim>\<open>main\<close> that reaches it, end
  with exit code 0.
\<close>

theorem C1_fault_isolation:
  assumes "transcribe env m f = Inl e"
  shows "transcribe_to_markdown env st f m od = (print st (Transcribing (name f)), Inl e)
   \<and> batch env m od (f # rest) st =
       batch env m od rest
         (print (print st (Transcribing (name f))) (TranscribeFailed (name f) (str_exn e)))
   \<and> fst (run_batch env m od files st) = 0
   \<and> (f \<in> set files \<longrightarrow>
        TranscribeFailed (name f) (str_exn e) \<in> set (stdout (snd (run_batch env m od files st))))
   \<and> (g \<in> set files \<and> transcribe env m g = Inr r \<and> output_path od g = Inr q \<and>
        \<not> is_dir (filesys st) q \<and> is_dir (filesys st) (parent q) \<longrightarrow>
        Saved q \<in> set (stdout (snd (run_batch env m od files st))) \<and>
        is_file (filesys (snd (run_batch env m od files st))) q)
   \<and> (2 \<le> length argv \<and> parse_loop (tl argv) 0 None [] = (od, ips) \<and>
        make_output_dir fs0 od = Inr fs1 \<and> collect fs1 AUDIO_EXTENSIONS ips [] [] = (af, out) \<and>
        f \<in> set af \<and> load_model env = Inr m \<longrightarrow>
        fst (main env argv fs0) = 0 \<and>
        TranscribeFailed (name f) (str_exn e) \<in> set (stdout (snd (main env argv fs0))))"
proof (intro conjI impI)
  show "transcribe_to_markdown env st f m od = (print st (Transcribing (name f)), Inl e)"
    by (rule transcribe_to_markdown_fail [OF assms])
  show "batch env m od (f # rest) st =
       batch env m od rest
         (print (print st (Transcribing (name f))) (TranscribeFailed (name f) (str_exn e)))"
    unfolding batch_Cons [of env m od f rest st] batch_single_fail [OF assms] ..
  show "fst (run_batch env m od files st) = 0" by (rule fst_run_batch)
next
  assume "f \<in> set files"
  then have "f \<in> set (sort files)" by simp
  from batch_logs_failure [OF this assms]
  show "TranscribeFailed (name f) (str_exn e) \<in> set (stdout (snd (run_batch env m od files st)))"
    unfolding run_batch_state by (simp add: print_def)
next
  assume a: "g \<in> set files \<and> transcribe env m g = Inr r \<and> output_path od g = Inr q \<and>
        \<not> is_dir (filesys st) q \<and> is_dir (filesys st) (parent q)"
  then have "g \<in> set (sort files)" by simp
  from batch_saves [OF this, of env m r od q st] a
  have b: "Saved q \<in> set (stdout (snd (run_batch env m od files st))) \<and>
        is_file (filesys (snd (run_batch env m od files st))) q"
    unfolding run_batch_state by (simp add: print_def)
  from b show "Saved q \<in> set (stdout (snd (run_batch env m od files st)))" ..
  from b show "is_file (filesys (snd (run_batch env m od files st))) q" ..
next
  assume a: "2 \<le> length argv \<and> parse_loop (tl argv) 0 None [] = (od, ips) \<and>
        make_output_dir fs0 od = Inr fs1 \<and> collect fs1 AUDIO_EXTENSIONS ips [] [] = (af, out) \<and>
        f \<in> set af \<and> load_model env = Inr m"
  then have ne: "af \<noteq> []" by auto
  from a have fs: "f \<in> set (sort af)" by simp
  have mn: "main env argv fs0 =
     run_batch env m od af
       \<lparr>filesys = fs1, stdout = out @ [Found (length af), Loading, LoadDone], ticks = 0\<rparr>"
    using a ne by (intro main_reaches_batch) blast+
  show "fst (main env argv fs0) = 0" unfolding mn by (rule fst_run_batch)
  from batch_logs_failure [OF fs assms]
  show "TranscribeFailed (name f) (str_exn e) \<in> set (stdout (snd (main env argv fs0)))"
    unfolding mn run_batch_state by (simp add: print_def)
qed

theorem C1_fault_isolation_witness:
  "fst (main
     \<lparr>load_model = Inr (),
      transcribe = (\<lambda>m p. if p = [''b.wav''] then Inl (RuntimeError ''corrupt'')
                          else Inr \<lparr>res_language = None, res_segments = [], res_text = ''hi''\<rparr>),
      now = (\<lambda>n. \<lparr>year = 2026, month = 11, day = 3, hour = 9, minute = 5, second = 7\<rparr>)\<rparr>
     [''prog'', ''c.wav'', ''b.wav'', ''a.wav'']
     \<lparr>nodes = [([''a.wav''], File []), ([''b.wav''], File []), ([''c.wav''], File [])],
      case_sensitive = True\<rparr>) = 0
   \<and> stdout (snd (main
     \<lparr>load_model = Inr (),
      transcribe = (\<lambda>m p. if p = [''b.wav''] then Inl (RuntimeError ''corrupt'')
                          else Inr \<lparr>res_language = None, res_segments = [], res_text = ''hi''\<rparr>),
      now = (\<lambda>n. \<lparr>year = 2026, month = 11, day = 3, hour = 9, minute = 5, second = 7\<rparr>)\<rparr>
     [''prog'', ''c.wav'', ''b.wav'', ''a.wav'']
     \<lparr>nodes = [([''a.wav''], File []), ([''b.wav''], File []), ([''c.wav''], File [])],
      case_sensitive = True\<rparr>)) =
     [Found 3, Loading, LoadDone, Transcribing ''a.wav'', Saved [''a.md''],
      Transcribing ''b.wav'', TranscribeFailed ''b.wav'' ''corrupt'',
      Transcribing ''c.wav'', Saved [''c.md''], AllDone]
   \<and> map fst (nodes (filesys (snd (main
     \<lparr>load_model = Inr (),
      transcribe = (\<lambda>m p. if p = [''b.wav''] then Inl (RuntimeError ''corrupt'')
                          else Inr \<lparr>res_language = None, res_segments = [], res_text = ''hi''\<rparr>),
      now = (\<lambda>n. \<lparr>year = 2026, month = 11, day = 3, hour = 9, minute = 5, second = 7\<rparr>)\<rparr>
     [''prog'', ''c.wav'', ''b.wav'', ''a.wav'']
     \<lparr>nodes = [([''a.wav''], File []), ([''b.wav''], File []), ([''c.wav''], File [])],
      case_sensitive = True\<rparr>)))) =
     [[''a.wav''], [''b.wav''], [''c.wav''], [''a.md''], [''c.md'']]"
proof -
  let ?env = "\<lparr>load_model = Inr (),
      transcribe = (\<lambda>m p. if p = [''b.wav''] then Inl (RuntimeError ''corrupt'')
                          else Inr \<lparr>res_language = None, res_segments = [], res_text = ''hi''\<rparr>),
      now = (\<lambda>n. \<lparr>year = 2026, month = 11, day = 3, hour = 9, minute = 5, second = 7\<rparr>)\<rparr>"
  let ?argv = "[''prog'', ''c.wav'', ''b.wav'', ''a.wav'']"
  let ?fs = "\<lparr>nodes = [([''a.wav''], File []), ([''b.wav''], File []), ([''c.wav''], File [])],
      case_sensitive = True\<rparr>"
  have t: "transcribe ?env () [''b.wav''] = Inl (RuntimeError ''corrupt'')" by simp
  have p: "parse_loop (tl ?argv) 0 None [] = (None, [[''c.wav''], [''b.wav''], [''a.wav'']])"
    by code_simp
  have m: "make_output_dir ?fs None = Inr ?fs" by (simp add: make_output_dir_def truthy_def)
  have c: "collect ?fs AUDIO_EXTENSIONS [[''c.wav''], [''b.wav''], [''a.wav'']] [] [] =
      ([[''c.wav''], [''b.wav''], [''a.wav'']], [])"
    by (simp add: is_file_def node_at_def)
  have 1: "fst (main ?env ?argv ?fs) = 0"
    using C1_fault_isolation [OF t, where argv = ?argv and od = None
        and ips = "[[''c.wav''], [''b.wav''], [''a.wav'']]" and ?fs0.0 = ?fs and ?fs1.0 = ?fs
        and af = "[[''c.wav''], [''b.wav''], [''a.wav'']]" and out = "[]"] p m c
    by simp
  have 2: "stdout (snd (main ?env ?argv ?fs)) =
     [Found 3, Loading, LoadDone, Transcribing ''a.wav'', Saved [''a.md''],
      Transcribing ''b.wav'', TranscribeFailed ''b.wav'' ''corrupt'',
      Transcribing ''c.wav'', Saved [''c.md''], AllDone]"
    by code_simp
  have 3: "map fst (nodes (filesys (snd (main ?env ?argv ?fs)))) =
     [[''a.wav''], [''b.wav''], [''c.wav''], [''a.md''], [''c.md'']]"
    by code_simp
  from 1 2 3 show ?thesis by blast
qed

section \<open>The program: properties\<close>

lemma node_at_mkdir:
  "node_at (fs\<lparr>nodes := nodes fs @ [(q, Dir)]\<rparr>) p =
     (case node_at fs p of Some n \<Rightarrow> Some n | None \<Rightarrow> if p = q then Some Dir else None)"
  by (simp add: node_at_def map_add_def split: option.splits)

lemma mkdir_each_keeps:
  "mkdir_each fs qs = Inr fs' \<Longrightarrow> node_at fs p = Some n \<Longrightarrow> node_at fs' p = Some n"
proof (induction qs arbitrary: fs)
  case Nil
  then show ?case by simp
next
  case (Cons q qs)
  show ?case
  proof (cases "node_at fs q")
    case None
    with Cons.prems(1) have "mkdir_each (fs\<lparr>nodes := nodes fs @ [(q, Dir)]\<rparr>) qs = Inr fs'"
      by simp
    moreover have "node_at (fs\<lparr>nodes := nodes fs @ [(q, Dir)]\<rparr>) p = Some n"
      using Cons.prems(2) by (simp add: node_at_mkdir)
    ultimately show ?thesis by (rule Cons.IH)
  next
    case (Some nd)
    with Cons.prems(1) have "mkdir_each fs qs = Inr fs'"
      by (cases nd) simp_all
    then show ?thesis using Cons.prems(2) by (rule Cons.IH)
  qed
qed

lemma mkdir_each_dirs:
  "mkdir_each fs qs = Inr fs' \<Longrightarrow> q \<in> set qs \<Longrightarrow> is_dir fs' q"
proof (induction qs arbitrary: fs)
  case Nil
  then show ?case by simp
next
  case (Cons h qs)
  show ?case
  proof (cases "node_at fs h")
    case None
    let ?fs2 = "fs\<lparr>nodes := nodes fs @ [(h, Dir)]\<rparr>"
    from None Cons.prems(1) have m: "mkdir_each ?fs2 qs = Inr fs'" by simp
    show ?thesis
    proof (cases "q = h")
      case True
      have "node_at ?fs2 h = Some Dir" using None by (simp add: node_at_mkdir)
      from mkdir_each_keeps [OF m this] True show ?thesis by (simp add: is_dir_def)
    next
      case False
      with Cons.prems(2) have "q \<in> set qs" by simp
      with m show ?thesis by (rule Cons.IH)
    qed
  next
    case (Some nd)
    with Cons.prems(1) have d: "nd = Dir" and m: "mkdir_each fs qs = Inr fs'"
      by (cases nd; simp)+
    show ?thesis
    proof (cases "q = h")
      case True
      from mkdir_each_keeps [OF m Some] d True show ?thesis by (simp add: is_dir_def)
    next
      case False
      with Cons.prems(2) have "q \<in> set qs" by simp
      with m show ?thesis by (rule Cons.IH)
    qed
  qed
qed

lemma mkdir_each_idle:
  "\<forall>q\<in>set qs. is_dir fs q \<Longrightarrow> mkdir_each fs qs = Inr fs"
  by (induction qs) (auto simp: is_dir_def split: option.splits node.splits)

lemma set_ancestors: "set (ancestors p) = {take n p |n. 1 \<le> n \<and> n \<le> length p}"
  by (auto simp: ancestors_def)

lemma makedirs_props:
  assumes "makedirs fs d = Inr fs'"
  shows "is_dir fs' (Path d)"
    and "n \<le> length (Path d) \<Longrightarrow> is_dir fs' (take n (Path d))"
    and "node_at fs p = Some nd \<Longrightarrow> node_at fs' p = Some nd"
    and "makedirs fs' d = Inr fs'"
proof -
  from assms have m: "mkdir_each fs (ancestors (Path d)) = Inr fs'"
    by (simp add: makedirs_def)
  have anc: "is_dir fs' (take k (Path d))" if "k \<le> length (Path d)" for k
  proof (cases "k = 0")
    case True
    then show ?thesis by (simp add: is_dir_def node_at_def)
  next
    case False
    with that have "take k (Path d) \<in> set (ancestors (Path d))"
      by (auto simp: set_ancestors)
    with m show ?thesis by (rule mkdir_each_dirs)
  qed
  from anc [of "length (Path d)"] show "is_dir fs' (Path d)" by simp
  show "n \<le> length (Path d) \<Longrightarrow> is_dir fs' (take n (Path d))" by (rule anc)
  show "node_at fs p = Some nd \<Longrightarrow> node_at fs' p = Some nd"
    using m by (rule mkdir_each_keeps)
  have "\<forall>q\<in>set (ancestors (Path d)). is_dir fs' q"
    using anc by (auto simp: set_ancestors)
  then show "makedirs fs' d = Inr fs'"
    unfolding makedirs_def by (rule mkdir_each_idle)
qed


lemma main_no_audio:
  assumes "2 \<le> length argv" and "parse_loop (tl argv) 0 None [] = (od, ips)"
    and "make_output_dir fs0 od = Inr fs1"
    and "collect fs1 AUDIO_EXTENSIONS ips [] [] = ([], out)"
  shows "main env argv fs0 = (1, \<lparr>filesys = fs1, stdout = out @ [NoAudioFound], ticks = 0\<rparr>)"
  using assms by (simp add: main_def print_def Let_def)




text \<open>
  C9. Creating the output directory makes it and each of its ancestors a directory, keeps
  every node that was there, and a second creation changes nothing. \<^verbatim>\<open>main\<close> creates it
  before it looks for audio files: in a run with a non-empty output directory in which the
  creation succeeds and no audio file is found in the file system that the creation left,
  the exit code is 1, the last print is the report that nothing was found, and the final
  file system is the one with the output directory in it.
\<close>

theorem C9_output_dir_created_first:
  "(makedirs fs d = Inr fs' \<longrightarrow>
      is_dir fs' (Path d) \<and> (\<forall>n\<le>length (Path d). is_dir fs' (take n (Path d))) \<and>
      (\<forall>p nd. node_at fs p = Some nd \<longrightarrow> node_at fs' p = Some nd) \<and>
      makedirs fs' d = Inr fs')
   \<and> (2 \<le> length argv \<and> parse_loop (tl argv) 0 None [] = (Some d, ips) \<and> d \<noteq> [] \<and>
      makedirs fs0 d = Inr fs1 \<and> fst (collect fs1 AUDIO_EXTENSIONS ips [] []) = [] \<longrightarrow>
      fst (main env argv fs0) = 1 \<and>
      last (stdout (snd (main env argv fs0))) = NoAudioFound \<and>
      filesys (snd (main env argv fs0)) = fs1 \<and>
      is_dir (filesys (snd (main env argv fs0))) (Path d))"
proof (intro conjI impI allI)
  assume m: "makedirs fs d = Inr fs'"
  show "is_dir fs' (Path d)" by (rule makedirs_props(1) [OF m])
  show "makedirs fs' d = Inr fs'" by (rule makedirs_props(4) [OF m])
  show "is_dir fs' (take n (Path d))" if "n \<le> length (Path d)" for n
    using that by (rule makedirs_props(2) [OF m])
  show "node_at fs' p = Some nd" if "node_at fs p = Some nd" for p nd
    using that by (rule makedirs_props(3) [OF m])
next
  assume a: "2 \<le> length argv \<and> parse_loop (tl argv) 0 None [] = (Some d, ips) \<and> d \<noteq> [] \<and>
      makedirs fs0 d = Inr fs1 \<and> fst (collect fs1 AUDIO_EXTENSIONS ips [] []) = []"
  obtain out where c: "collect fs1 AUDIO_EXTENSIONS ips [] [] = ([], out)"
    using a by (cases "collect fs1 AUDIO_EXTENSIONS ips [] []") auto
  from a have mk: "make_output_dir fs0 (Some d) = Inr fs1"
    by (simp add: make_output_dir_def truthy_def)
  from a have l: "2 \<le> length argv" and p: "parse_loop (tl argv) 0 None [] = (Some d, ips)"
    and md: "makedirs fs0 d = Inr fs1"
    by blast+
  have mn: "main env argv fs0 = (1, \<lparr>filesys = fs1, stdout = out @ [NoAudioFound], ticks = 0\<rparr>)"
    by (rule main_no_audio [OF l p mk c])
  show "fst (main env argv fs0) = 1" by (simp add: mn)
  show "last (stdout (snd (main env argv fs0))) = NoAudioFound" by (simp add: mn)
  show "filesys (snd (main env argv fs0)) = fs1" by (simp add: mn)
  show "is_dir (filesys (snd (main env argv fs0))) (Path d)"
    using makedirs_props(1) [OF md] by (simp add: mn)
qed



theorem C9_output_dir_created_first_witness:
  "\<not> is_dir \<lparr>nodes = [([''empty''], Dir)], case_sensitive = True\<rparr> [''out'', ''md'']
   \<and> fst (main \<lparr>load_model = Inr (), transcribe = (\<lambda>m p. Inl (RuntimeError [])),
         now = (\<lambda>n. \<lparr>year = 2026, month = 11, day = 3, hour = 9, minute = 5, second = 7\<rparr>)\<rparr>
           [''prog'', ''-o'', ''out/md'', ''empty'']
           \<lparr>nodes = [([''empty''], Dir)], case_sensitive = True\<rparr>) = 1
   \<and> is_dir (filesys (snd (main \<lparr>load_model = Inr (), transcribe = (\<lambda>m p. Inl (RuntimeError [])),
         now = (\<lambda>n. \<lparr>year = 2026, month = 11, day = 3, hour = 9, minute = 5, second = 7\<rparr>)\<rparr>
           [''prog'', ''-o'', ''out/md'', ''empty'']
           \<lparr>nodes = [([''empty''], Dir)], case_sensitive = True\<rparr>))) [''out'', ''md'']
   \<and> makedirs \<lparr>nodes = [([''empty''], Dir), ([''out''], Dir), ([''out'', ''md''], Dir)],
                 case_sensitive = True\<rparr> ''out/md'' =
       Inr \<lparr>nodes = [([''empty''], Dir), ([''out''], Dir), ([''out'', ''md''], Dir)],
             case_sensitive = True\<rparr>"
proof -
  let ?fs0 = "\<lparr>nodes = [([''empty''], Dir)], case_sensitive = True\<rparr>"
  let ?fs1 = "\<lparr>nodes = [([''empty''], Dir), ([''out''], Dir), ([''out'', ''md''], Dir)],
                 case_sensitive = True\<rparr>"
  let ?env = "\<lparr>load_model = Inr (), transcribe = (\<lambda>m p. Inl (RuntimeError [])),
         now = (\<lambda>n. \<lparr>year = 2026, month = 11, day = 3, hour = 9, minute = 5, second = 7\<rparr>)\<rparr>"
  let ?argv = "[''prog'', ''-o'', ''out/md'', ''empty'']"
  have n: "\<not> is_dir ?fs0 [''out'', ''md'']" by (simp add: is_dir_def node_at_def)
  have pd: "Path ''out/md'' = [''out'', ''md'']" by code_simp
  have md: "makedirs ?fs0 ''out/md'' = Inr ?fs1" by code_simp
  have p: "parse_loop (tl ?argv) 0 None [] = (Some ''out/md'', [[''empty'']])" by code_simp
  have c: "fst (collect ?fs1 AUDIO_EXTENSIONS [[''empty'']] [] []) = []" by code_simp
  from C9_output_dir_created_first [where argv = ?argv and d = "''out/md''" and ips = "[[''empty'']]" and ?fs0.0 = ?fs0
      and ?fs1.0 = ?fs1 and fs = ?fs0 and fs' = ?fs1 and env = ?env] md p c
  have "fst (main ?env ?argv ?fs0) = 1 \<and> is_dir (filesys (snd (main ?env ?argv ?fs0))) [''out'', ''md'']
    \<and> makedirs ?fs1 ''out/md'' = Inr ?fs1"
    by (simp add: pd)
  with n show ?thesis by blast
qed



end
